theory Spec2Isabelle
  imports Complex_Main "HOL-Library.Sublist" "HOL-Library.Char_ord" "HOL-Library.List_Lexorder"
begin

section \<open>Texts and character classes\<close>

text \<open>
  A Python \<open>str\<close> is a sequence of code points. The texts of this development are
  \<open>string\<close>s whose characters are read as the code points 0 to 255, so that \<open>length\<close>
  counts what Python's \<open>len\<close> counts. The three character-level operations the
  programs use from the standard library are written out for this range: whitespace
  (\<open>\s\<close> in a pattern, \<open>str.strip\<close>), word characters (\<open>\w\<close>, \<open>\b\<close>) and \<open>str.lower\<close>.
\<close>

definition ord :: "char \<Rightarrow> nat" where
  "ord c = of_char c"

definition isspace :: "char \<Rightarrow> bool" where
  "isspace c = (let n = ord c in
     (9 \<le> n \<and> n \<le> 13) \<or> (28 \<le> n \<and> n \<le> 32) \<or> n = 133 \<or> n = 160)"

definition is_az :: "char \<Rightarrow> bool" where
  "is_az c = (let n = ord c in 97 \<le> n \<and> n \<le> 122)"

definition isword :: "char \<Rightarrow> bool" where
  "isword c = (let n = ord c in
     (48 \<le> n \<and> n \<le> 57) \<or> (65 \<le> n \<and> n \<le> 90) \<or> n = 95 \<or> (97 \<le> n \<and> n \<le> 122)
     \<or> n = 170 \<or> n = 178 \<or> n = 179 \<or> n = 181 \<or> n = 185 \<or> n = 186
     \<or> (188 \<le> n \<and> n \<le> 190) \<or> (192 \<le> n \<and> n \<le> 214) \<or> (216 \<le> n \<and> n \<le> 246)
     \<or> 248 \<le> n)"

definition lower_char :: "char \<Rightarrow> char" where
  "lower_char c = (let n = ord c in
     if (65 \<le> n \<and> n \<le> 90) \<or> (192 \<le> n \<and> n \<le> 214) \<or> (216 \<le> n \<and> n \<le> 222)
     then char_of (n + 32) else c)"

definition lower :: "string \<Rightarrow> string" where
  "lower s = map lower_char s"

text \<open>\<open>s.strip()\<close>: leading and trailing whitespace removed.\<close>

definition strip :: "string \<Rightarrow> string" where
  "strip s = rev (dropWhile isspace (rev (dropWhile isspace s)))"

text \<open>\<open>sep.join(parts)\<close>.\<close>

fun join :: "string \<Rightarrow> string list \<Rightarrow> string" where
  "join sep [] = []"
| "join sep [t] = t"
| "join sep (t # u # ts) = t @ sep @ join sep (u # ts)"

section \<open>Tokenizer\<close>

text \<open>
  \<open>re.findall(r'\S+|\s+', text)\<close>: the scan starts at the first character; there the
  first alternative takes the longest run of non-whitespace, and when the character is
  whitespace the second alternative takes the longest run of whitespace; the scan goes
  on behind the match.
\<close>

function findall_runs :: "string \<Rightarrow> string list" where
  "findall_runs [] = []"
| "findall_runs (c # cs) =
     (if \<not> isspace c
      then (c # takeWhile (\<lambda>x. \<not> isspace x) cs) # findall_runs (dropWhile (\<lambda>x. \<not> isspace x) cs)
      else (c # takeWhile isspace cs) # findall_runs (dropWhile isspace cs))"
  by pat_completeness auto
termination
  by (relation "measure length") (auto simp: length_dropWhile_le less_Suc_eq_le)

text \<open>
  \<open>tokenize_text\<close>, the same in both programs:
  \<^verbatim>\<open>tokens = re.findall(r'\S+|\s+', text)
  return [token for token in tokens if token.strip()]\<close>
\<close>

definition tokenize_text :: "string \<Rightarrow> string list" where
  "tokenize_text text = filter (\<lambda>token. strip token \<noteq> []) (findall_runs text)"

section \<open>Python lists and dictionaries\<close>

text \<open>\<open>range(a, b)\<close> and the slice \<open>xs[a:b]\<close> for any integers, negative ones included.\<close>

definition py_range :: "int \<Rightarrow> int \<Rightarrow> int list" where
  "py_range a b = [a..b - 1]"

definition py_slice :: "'a list \<Rightarrow> int \<Rightarrow> int \<Rightarrow> 'a list" where
  "py_slice xs a b =
     (let n = int (length xs);
          lo = (if a < 0 then max (a + n) 0 else min a n);
          hi = (if b < 0 then max (b + n) 0 else min b n)
      in take (nat (hi - lo)) (drop (nat lo) xs))"

text \<open>
  A \<open>dict\<close> keeps its keys in insertion order, and \<open>sorted\<close> is stable, so the order of
  the entries decides between terms of equal score. A dictionary is therefore a list of
  key-value pairs with distinct keys, in insertion order: \<open>d.get(k, default)\<close> reads,
  \<open>d[k] = v\<close> overwrites in place or appends.
\<close>

type_synonym ('k, 'v) dict = "('k \<times> 'v) list"

definition dict_get :: "('k, 'v) dict \<Rightarrow> 'k \<Rightarrow> 'v \<Rightarrow> 'v" where
  "dict_get d k dflt = (case map_of d k of None \<Rightarrow> dflt | Some v \<Rightarrow> v)"

fun dict_set :: "('k, 'v) dict \<Rightarrow> 'k \<Rightarrow> 'v \<Rightarrow> ('k, 'v) dict" where
  "dict_set [] k v = [(k, v)]"
| "dict_set ((k', v') # d) k v = (if k' = k then (k', v) # d else (k', v') # dict_set d k v)"

section \<open>Common-term extractor\<close>

definition stop_words :: "string set" where
  "stop_words = set [
    ''the'', ''a'', ''an'', ''and'', ''or'', ''but'', ''in'', ''on'', ''at'', ''to'', ''for'', ''of'', ''with'', ''by'',
    ''from'', ''up'', ''about'', ''into'', ''through'', ''during'', ''before'', ''after'', ''above'', ''below'',
    ''between'', ''among'', ''this'', ''that'', ''these'', ''those'', ''i'', ''you'', ''he'', ''she'', ''it'', ''we'',
    ''they'', ''me'', ''him'', ''her'', ''us'', ''them'', ''my'', ''your'', ''his'', ''her'', ''its'', ''our'', ''their'',
    ''is'', ''are'', ''was'', ''were'', ''be'', ''been'', ''being'', ''have'', ''has'', ''had'', ''do'', ''does'', ''did'',
    ''will'', ''would'', ''could'', ''should'', ''may'', ''might'', ''can'', ''must'', ''shall'', ''not'', ''no'', ''yes'',
    ''as'', ''so'', ''if'', ''when'', ''where'', ''why'', ''how'', ''what'', ''who'', ''which'', ''whose'', ''whom'',
    ''all'', ''any'', ''some'', ''many'', ''few'', ''most'', ''more'', ''less'', ''much'', ''little'', ''very'', ''too'',
    ''also'', ''only'', ''just'', ''even'', ''still'', ''again'', ''here'', ''there'', ''now'', ''then'', ''today'',
    ''yesterday'', ''tomorrow'', ''one'', ''two'', ''three'', ''first'', ''second'', ''third'', ''last'', ''next'']"

text \<open>
  \<open>re.findall(r'\b[a-z]+\b', combined_text)\<close>. \<open>\b\<close> holds between two positions when
  exactly one of the characters on its two sides is a word character (the outside of the
  text counts as none).
\<close>

definition is_boundary :: "char option \<Rightarrow> char option \<Rightarrow> bool" where
  "is_boundary prev after =
     ((case prev of None \<Rightarrow> False | Some c \<Rightarrow> isword c)
      \<noteq> (case after of None \<Rightarrow> False | Some c \<Rightarrow> isword c))"

definition char_at :: "string \<Rightarrow> nat \<Rightarrow> char option" where
  "char_at s i = (if i < length s then Some (s ! i) else None)"

text \<open>
  \<open>[a-z]+\b\<close> behind a first letter \<open>c\<close>: the greedy \<open>+\<close> has taken \<open>j\<close> more letters of
  \<open>cs\<close>; the closing \<open>\b\<close> is tried there, and on failure the engine gives one letter
  back, down to the single letter \<open>c\<close>. The result is the number of letters of \<open>cs\<close>
  in the match.
\<close>

fun backtrack :: "char \<Rightarrow> string \<Rightarrow> nat \<Rightarrow> nat option" where
  "backtrack c cs 0 = (if is_boundary (Some c) (char_at cs 0) then Some 0 else None)"
| "backtrack c cs (Suc j) =
     (if is_boundary (Some (cs ! j)) (char_at cs (Suc j)) then Some (Suc j) else backtrack c cs j)"

text \<open>
  The scan: \<open>prev\<close> is the character in front of the current position. A match is
  reported and the scan goes on behind it; without a match the scan moves one
  character on.
\<close>

function findall_words_from :: "char option \<Rightarrow> string \<Rightarrow> string list" where
  "findall_words_from prev [] = []"
| "findall_words_from prev (c # cs) =
     (case (if is_boundary prev (Some c) \<and> is_az c
            then backtrack c cs (length (takeWhile is_az cs)) else None) of
        Some j \<Rightarrow> (c # take j cs) # findall_words_from (Some (last (c # take j cs))) (drop j cs)
      | None \<Rightarrow> findall_words_from (Some c) cs)"
  by pat_completeness auto
termination
  by (relation "measure (\<lambda>(prev, s). length s)") auto

definition findall_words :: "string \<Rightarrow> string list" where
  "findall_words s = findall_words_from None s"

text \<open>
  The two counting loops of \<open>analyze_common_words\<close>:
  \<^verbatim>\<open>for word in words:
    if len(word) >= min_length and word not in stop_words:
        word_counts[word] = word_counts.get(word, 0) + 1\<close>
  and the same loop over the fragments \<open>word[start:start + frag_len]\<close> of every such word,
  \<open>frag_len in range(min_length, min(len(word) + 1, 8))\<close>,
  \<open>start in range(len(word) - frag_len + 1)\<close>, fragments in the stop-word set left out.
\<close>

definition count_word :: "int \<Rightarrow> (string, int) dict \<Rightarrow> string \<Rightarrow> (string, int) dict" where
  "count_word min_length word_counts word =
     (if int (length word) \<ge> min_length \<and> word \<notin> stop_words
      then dict_set word_counts word (dict_get word_counts word 0 + 1)
      else word_counts)"

definition fragments :: "int \<Rightarrow> string \<Rightarrow> string list" where
  "fragments min_length word =
     concat (map (\<lambda>frag_len.
                map (\<lambda>start. py_slice word start (start + frag_len))
                    (py_range 0 (int (length word) - frag_len + 1)))
             (py_range min_length (min (int (length word) + 1) 8)))"

definition count_fragment :: "(string, int) dict \<Rightarrow> string \<Rightarrow> (string, int) dict" where
  "count_fragment fragment_counts fragment =
     (if fragment \<notin> stop_words
      then dict_set fragment_counts fragment (dict_get fragment_counts fragment 0 + 1)
      else fragment_counts)"

definition count_fragments :: "int \<Rightarrow> (string, int) dict \<Rightarrow> string \<Rightarrow> (string, int) dict" where
  "count_fragments min_length fragment_counts word =
     (if int (length word) \<ge> min_length \<and> word \<notin> stop_words
      then foldl count_fragment fragment_counts (fragments min_length word)
      else fragment_counts)"

text \<open>
  The merge:
  \<^verbatim>\<open>for word, count in word_counts.items():
    all_counts[word] = count * 2
for fragment, count in fragment_counts.items():
    if count >= 5:
        if fragment not in all_counts:
            all_counts[fragment] = count
        else:
            all_counts[fragment] += count\<close>
\<close>

definition add_word :: "(string, int) dict \<Rightarrow> string \<times> int \<Rightarrow> (string, int) dict" where
  "add_word all_counts item = (case item of (word, count) \<Rightarrow> dict_set all_counts word (count * 2))"

definition add_fragment :: "(string, int) dict \<Rightarrow> string \<times> int \<Rightarrow> (string, int) dict" where
  "add_fragment all_counts item =
     (case item of (fragment, count) \<Rightarrow>
        if count \<ge> 5
        then (case map_of all_counts fragment of
                None \<Rightarrow> dict_set all_counts fragment count
              | Some score \<Rightarrow> dict_set all_counts fragment (score + count))
        else all_counts)"

definition merge_counts :: "(string, int) dict \<Rightarrow> (string, int) dict \<Rightarrow> (string, int) dict" where
  "merge_counts word_counts fragment_counts =
     foldl add_fragment (foldl add_word [] word_counts) fragment_counts"

text \<open>
  \<open>sorted(all_counts.items(), key=lambda x: x[1], reverse=True)\<close>: a stable sort by
  descending score (\<open>reverse=True\<close> keeps entries of equal score in their original order).
\<close>

definition sorted_by_score :: "(string, int) dict \<Rightarrow> (string \<times> int) list" where
  "sorted_by_score all_counts = sort_key (\<lambda>x. - snd x) all_counts"

text \<open>
  The intermediate values of \<open>analyze_common_words\<close> behind the guard \<open>if not texts\<close>:
  \<^verbatim>\<open>combined_text = ' '.join(texts).lower()
words = re.findall(r'\b[a-z]+\b', combined_text)\<close>
  then the two counting loops and the merge.
\<close>

definition words_of :: "string list \<Rightarrow> string list" where
  "words_of texts = findall_words (lower (join '' '' texts))"

definition word_counts_of :: "string list \<Rightarrow> int \<Rightarrow> (string, int) dict" where
  "word_counts_of texts min_length = foldl (count_word min_length) [] (words_of texts)"

definition fragment_counts_of :: "string list \<Rightarrow> int \<Rightarrow> (string, int) dict" where
  "fragment_counts_of texts min_length = foldl (count_fragments min_length) [] (words_of texts)"

definition all_counts_of :: "string list \<Rightarrow> int \<Rightarrow> (string, int) dict" where
  "all_counts_of texts min_length =
     merge_counts (word_counts_of texts min_length) (fragment_counts_of texts min_length)"

definition analyze_common_words :: "string list \<Rightarrow> int \<Rightarrow> int \<Rightarrow> string list" where
  "analyze_common_words texts min_length top_n =
     (if texts = [] then []
      else let sorted_words = sorted_by_score (all_counts_of texts min_length)
           in map fst (py_slice sorted_words 0 top_n))"

text \<open>
  What the two loops count, for the statements below: the occurrences of the words that
  pass the test \<open>len(word) >= min_length and word not in stop_words\<close>, and the fragments
  of these occurrences that pass \<open>fragment not in stop_words\<close>.
\<close>

definition surviving_words :: "string list \<Rightarrow> int \<Rightarrow> string list" where
  "surviving_words texts min_length =
     filter (\<lambda>word. int (length word) \<ge> min_length \<and> word \<notin> stop_words) (words_of texts)"

definition counted_fragments :: "string list \<Rightarrow> int \<Rightarrow> string list" where
  "counted_fragments texts min_length =
     filter (\<lambda>fragment. fragment \<notin> stop_words)
       (concat (map (fragments min_length) (surviving_words texts min_length)))"

section \<open>Token highlighter\<close>

text \<open>
  The test both highlighters make for one token:
  \<^verbatim>\<open>token_lower = token.lower()
clean_token = re.sub(r'[^\w]', '', token_lower)
is_highlighted = False
if clean_token:
    for common_word in common_words:
        if common_word in clean_token or clean_token in common_word:
            is_highlighted = True
            break\<close>
  \<open>a in b\<close> on strings is the contiguous-substring test, \<^const>\<open>sublist\<close>.
\<close>

definition clean_token :: "string \<Rightarrow> string" where
  "clean_token token = filter isword (lower token)"

definition is_highlighted :: "string list \<Rightarrow> string \<Rightarrow> bool" where
  "is_highlighted common_words token =
     (clean_token token \<noteq> []
      \<and> list_ex (\<lambda>common_word. sublist common_word (clean_token token)
                              \<or> sublist (clean_token token) common_word) common_words)"

text \<open>
  \<open>highlight_pattern\<close> of the static export. The activations are the two literals
  \<open>0.1\<close> (low) and \<open>0.9\<close> (high); nothing is computed with them. \<open>cluster_texts\<close>
  defaults to \<open>None\<close>, which \<open>not cluster_texts\<close> treats like the empty list. The
  parameters \<open>pattern\<close> and \<open>cluster_id\<close> are not used by the body.
\<close>

definition highlight_pattern ::
  "string list \<Rightarrow> string \<Rightarrow> string option \<Rightarrow> bool \<Rightarrow> string list option \<Rightarrow> real list" where
  "highlight_pattern tokens pattern cluster_id is_right_panel cluster_texts =
     (case cluster_texts of
        None \<Rightarrow> replicate (length tokens) 0.1
      | Some texts \<Rightarrow>
          if texts = [] then replicate (length tokens) 0.1
          else if \<not> is_right_panel then replicate (length tokens) 0.1
          else let common_words = analyze_common_words texts 3 2
               in map (\<lambda>token. if is_highlighted common_words token then 0.9 else 0.1) tokens)"

text \<open>
  \<open>highlight_tokens\<close> of the dashboard: the same test, the result written as markup.
  Without emphasis or without cluster texts the text is returned as it is.
\<close>

definition span_high :: "string \<Rightarrow> string" where
  \<open>span_high token = ''<span class="token activation-high">'' @ token @ ''</span>''\<close>

definition span_low :: "string \<Rightarrow> string" where
  \<open>span_low token = ''<span class="token activation-low">'' @ token @ ''</span>''\<close>

definition highlight_tokens :: "string \<Rightarrow> string list \<Rightarrow> bool \<Rightarrow> string" where
  "highlight_tokens text cluster_texts is_right_panel =
     (if \<not> is_right_panel then text
      else if cluster_texts = [] then text
      else let common_words = analyze_common_words cluster_texts 3 2;
               tokens = tokenize_text text
           in concat (map (\<lambda>token. if is_highlighted common_words token
                                   then span_high token else span_low token) tokens))"

section \<open>Renderer of the dashboard\<close>

text \<open>
  A checkpoint record is one parsed line of a series file, a JSON object. A key the
  object does not have is \<open>None\<close> here.
\<close>

record checkpoint =
  checkpoint_step :: "int option"
  text_examples :: "string list option"
  cluster_labels :: "int list option"

text \<open>
  What a rendering pass puts on the page, one element per \<open>st.markdown\<close> or \<open>st.error\<close>
  call, in call order. An element carries the values interpolated into the markup of
  the call: the cluster header its label, colour and \<open>len(examples)\<close>, an example its
  highlighted text, the closing note \<open>len(examples) - 5\<close>.
\<close>

datatype element =
    Cluster_Header int string nat
  | Example string
  | More_Examples nat
  | Cluster_End
  | Error string

definition cluster_colors :: "string list" where
  "cluster_colors = [''#FF6B6B'', ''#4ECDC4'', ''#45B7D1'', ''#96CEB4'', ''#FFEAA7'',
                     ''#DDA0DD'', ''#F39C12'', ''#E74C3C'', ''#9B59B6'', ''#3498DB'']"

text \<open>
  \<^verbatim>\<open>clusters = {}
for i, (label, example) in enumerate(zip(cluster_labels, text_examples)):
    if label not in clusters:
        clusters[label] = []
    clusters[label].append(example)\<close>
\<close>

definition add_example :: "(int, string list) dict \<Rightarrow> int \<times> string \<Rightarrow> (int, string list) dict" where
  "add_example clusters item =
     (case item of (label, example) \<Rightarrow>
        let clusters' = (if map_of clusters label = None then dict_set clusters label [] else clusters)
        in dict_set clusters' label (dict_get clusters' label [] @ [example]))"

definition group_examples :: "int list \<Rightarrow> string list \<Rightarrow> (int, string list) dict" where
  "group_examples labels examples = foldl add_example [] (zip labels examples)"

text \<open>The body of the loop \<open>for cluster_id in sorted(clusters.keys())\<close>.\<close>

definition display_cluster :: "bool \<Rightarrow> int \<Rightarrow> string list \<Rightarrow> element list" where
  "display_cluster is_right_panel cluster_id examples =
     [Cluster_Header cluster_id
        (cluster_colors ! nat (cluster_id mod int (length cluster_colors))) (length examples)]
     @ map (\<lambda>example. Example (highlight_tokens example examples is_right_panel))
           (py_slice examples 0 5)
     @ (if length examples > 5 then [More_Examples (length examples - 5)] else [])
     @ [Cluster_End]"

definition display_cluster_data :: "checkpoint \<Rightarrow> bool \<Rightarrow> element list" where
  "display_cluster_data data is_right_panel =
     (case (cluster_labels data, text_examples data) of
        (Some labels, Some examples) \<Rightarrow>
          let clusters = group_examples labels examples
          in concat (map (\<lambda>cluster_id.
                            display_cluster is_right_panel cluster_id (the (map_of clusters cluster_id)))
                         (sort (map fst clusters)))
      | _ \<Rightarrow> [Error ''Invalid data format''])"









section \<open>Loader of the dashboard\<close>

text \<open>
  The results directories as \<open>load_neuron_data\<close> sees them: a directory that exists
  maps to its files in \<open>os.listdir\<close> order. A file is its name and its lines, each line
  given by what \<open>json.loads(line.strip())\<close> makes of it: the parsed record, or the message
  of the exception it raises.
\<close>

type_synonym series_file = "string \<times> (string + checkpoint) list"

type_synonym results_dirs = "(string, series_file list) dict"

record loaded =
  all_neuron_data :: "(string, checkpoint list) dict"
  available_neurons :: "string list"
  errors :: "string list"

text \<open>\<open>s.replace(old, new)\<close> for a non-empty \<open>old\<close>.\<close>

function py_replace :: "string \<Rightarrow> string \<Rightarrow> string \<Rightarrow> string" where
  "py_replace [] old new = []"
| "py_replace (c # cs) old new =
     (if old \<noteq> [] \<and> prefix old (c # cs)
      then new @ py_replace (drop (length old) (c # cs)) old new
      else c # py_replace cs old new)"
  by pat_completeness auto
termination
  by (relation "measure (\<lambda>(s, old, new). length s)") auto

text \<open>
  The loop \<open>for line in f: data.append(json.loads(line.strip()))\<close>; the first line that
  does not parse raises.
\<close>

fun read_lines :: "(string + checkpoint) list \<Rightarrow> string + checkpoint list" where
  "read_lines [] = Inr []"
| "read_lines (Inl e # lines) = Inl e"
| "read_lines (Inr d # lines) =
     (case read_lines lines of Inl e \<Rightarrow> Inl e | Inr data \<Rightarrow> Inr (d # data))"

text \<open>The body of the loop over the file names of one directory, \<open>try\<close> and \<open>except\<close>.\<close>

definition load_file :: "string \<Rightarrow> loaded \<Rightarrow> series_file \<Rightarrow> loaded" where
  "load_file suffix_name st file =
     (case file of (filename, lines) \<Rightarrow>
        if suffix suffix_name filename
        then (let neuron_id = py_replace filename suffix_name []
              in case read_lines lines of
                   Inr data \<Rightarrow>
                     st\<lparr>all_neuron_data := dict_set (all_neuron_data st) neuron_id data,
                        available_neurons := available_neurons st @ [neuron_id]\<rparr>
                 | Inl e \<Rightarrow>
                     st\<lparr>errors := errors st @ [''Error loading '' @ filename @ '': '' @ e]\<rparr>)
        else st)"

definition load_dir :: "results_dirs \<Rightarrow> string \<Rightarrow> loaded \<Rightarrow> string \<Rightarrow> loaded" where
  "load_dir dirs suffix_name st search_path =
     (case map_of dirs search_path of
        None \<Rightarrow> st
      | Some files \<Rightarrow> foldl (load_file suffix_name) st files)"

definition load_neuron_data :: "results_dirs \<Rightarrow> string \<Rightarrow> loaded" where
  "load_neuron_data dirs model_name =
     (let start = \<lparr>all_neuron_data = [], available_neurons = [], errors = []\<rparr> in
      if model_name = ''Pythia-70M''
      then (let st = foldl (load_dir dirs ''_pythia70m_ckpt_series.jsonl'') start
                       [''results'', ''results/pythia70m'']
            in st\<lparr>available_neurons := sort (available_neurons st)\<rparr>)
      else if model_name = ''Pythia-160M''
      then (let st = foldl (load_dir dirs ''_pythia160m_ckpt_series.jsonl'') start
                       [''results/pythia160m'']
            in st\<lparr>available_neurons := sort (available_neurons st)\<rparr>)
      else start)"

text \<open>
  For the statements about the loader: a file is unreadable when its name has the
  suffix of the model and one of its lines does not parse; the message shown for it;
  the directories without their unreadable files; the file-name suffix of a model.
\<close>

definition unreadable :: "string \<Rightarrow> series_file \<Rightarrow> bool" where
  "unreadable suffix_name file = (suffix suffix_name (fst file) \<and> isl (read_lines (snd file)))"

definition error_message :: "series_file \<Rightarrow> string" where
  "error_message file = ''Error loading '' @ fst file @ '': '' @ projl (read_lines (snd file))"

definition without_unreadable :: "string \<Rightarrow> results_dirs \<Rightarrow> results_dirs" where
  "without_unreadable suffix_name dirs =
     map (\<lambda>(path, files). (path, filter (\<lambda>file. \<not> unreadable suffix_name file) files)) dirs"

definition error_messages :: "string \<Rightarrow> results_dirs \<Rightarrow> string \<Rightarrow> string list" where
  "error_messages suffix_name dirs search_path =
     (case map_of dirs search_path of
        None \<Rightarrow> []
      | Some files \<Rightarrow> map error_message (filter (unreadable suffix_name) files))"

definition series_suffix :: "string \<Rightarrow> string" where
  "series_suffix model_name =
     (if model_name = ''Pythia-70M'' then ''_pythia70m_ckpt_series.jsonl''
      else ''_pythia160m_ckpt_series.jsonl'')"

section \<open>Properties of the tokenizer\<close>

lemma takeWhile_all: "\<forall>x\<in>set (takeWhile P xs). P x"
  by (induction xs) auto

lemma dropWhile_all: "(\<forall>x\<in>set (dropWhile P xs). P x) \<longleftrightarrow> (\<forall>x\<in>set xs. P x)"
  by (induction xs) simp_all

lemma concat_findall_runs: "concat (findall_runs s) = s"
  by (induction s rule: findall_runs.induct) simp_all

lemma findall_runs_homogeneous:
  "r \<in> set (findall_runs s) \<Longrightarrow>
     r \<noteq> [] \<and> ((\<forall>c\<in>set r. isspace c) \<or> (\<forall>c\<in>set r. \<not> isspace c))"
proof (induction s rule: findall_runs.induct)
  case 1
  then show ?case by simp
next
  case (2 c cs)
  show ?case
  proof (cases "isspace c")
    case True
    from "2.prems" True
    have "r = c # takeWhile isspace cs \<or> r \<in> set (findall_runs (dropWhile isspace cs))"
      by simp
    then show ?thesis
    proof
      assume r: "r = c # takeWhile isspace cs"
      have "\<forall>x\<in>set (takeWhile isspace cs). isspace x"
        by (rule takeWhile_all)
      with True r show ?thesis by simp
    next
      assume "r \<in> set (findall_runs (dropWhile isspace cs))"
      with True "2.IH"(2) show ?thesis by blast
    qed
  next
    case False
    from "2.prems" False
    have "r = c # takeWhile (\<lambda>x. \<not> isspace x) cs
          \<or> r \<in> set (findall_runs (dropWhile (\<lambda>x. \<not> isspace x) cs))"
      by simp
    then show ?thesis
    proof
      assume r: "r = c # takeWhile (\<lambda>x. \<not> isspace x) cs"
      have "\<forall>x\<in>set (takeWhile (\<lambda>x. \<not> isspace x) cs). \<not> isspace x"
        by (rule takeWhile_all)
      with False r show ?thesis by simp
    next
      assume "r \<in> set (findall_runs (dropWhile (\<lambda>x. \<not> isspace x) cs))"
      with False "2.IH"(1) show ?thesis by blast
    qed
  qed
qed

lemma findall_runs_hd:
  "findall_runs s = r # rs \<Longrightarrow> s \<noteq> [] \<and> r \<noteq> [] \<and> hd r = hd s"
proof (cases s)
  case Nil
  assume "findall_runs s = r # rs"
  with Nil show ?thesis by simp
next
  case (Cons c cs)
  assume "findall_runs s = r # rs"
  with Cons have "r = c # takeWhile (\<lambda>x. \<not> isspace x) cs \<or> r = c # takeWhile isspace cs"
    by (simp split: if_splits)
  with Cons show ?thesis by fastforce
qed

lemma findall_runs_alternate:
  "Suc i < length (findall_runs s) \<Longrightarrow>
     isspace (hd (findall_runs s ! i)) \<noteq> isspace (hd (findall_runs s ! Suc i))"
proof (induction s arbitrary: i rule: findall_runs.induct)
  case 1
  then show ?case by simp
next
  case (2 c cs)
  show ?case
  proof (cases "isspace c")
    case sp: True
    let ?rest = "findall_runs (dropWhile isspace cs)"
    from 2 sp have len: "i < length ?rest" by simp
    show ?thesis
    proof (cases i)
      case 0
      from len obtain r rs where rr: "?rest = r # rs" by (cases ?rest) auto
      then have "dropWhile isspace cs \<noteq> []" and "hd r = hd (dropWhile isspace cs)"
        using findall_runs_hd by blast+
      then have "\<not> isspace (hd r)" using hd_dropWhile by metis
      with sp 0 rr show ?thesis by simp
    next
      case (Suc j)
      with 2 sp len show ?thesis by simp
    qed
  next
    case ns: False
    let ?rest = "findall_runs (dropWhile (\<lambda>x. \<not> isspace x) cs)"
    from 2 ns have len: "i < length ?rest" by simp
    show ?thesis
    proof (cases i)
      case 0
      from len obtain r rs where rr: "?rest = r # rs" by (cases ?rest) auto
      then have "dropWhile (\<lambda>x. \<not> isspace x) cs \<noteq> []"
        and "hd r = hd (dropWhile (\<lambda>x. \<not> isspace x) cs)"
        using findall_runs_hd by blast+
      then have "isspace (hd r)" using hd_dropWhile [of "\<lambda>x. \<not> isspace x" cs] by simp
      with ns 0 rr show ?thesis by simp
    next
      case (Suc j)
      with 2 ns len show ?thesis by simp
    qed
  qed
qed

lemma strip_empty_iff: "strip s = [] \<longleftrightarrow> (\<forall>c\<in>set s. isspace c)"
  unfolding strip_def
  by (simp only: rev_is_Nil_conv dropWhile_eq_Nil_conv set_rev dropWhile_all)

lemma tokenize_text_filter:
  "tokenize_text s = filter (\<lambda>r. \<exists>c\<in>set r. \<not> isspace c) (findall_runs s)"
  unfolding tokenize_text_def by (rule filter_cong) (simp_all add: strip_empty_iff)

lemma findall_runs_example: "findall_runs ''a  b'' = [''a'', ''  '', ''b'']"
  by code_simp

lemma tokenize_text_example: "tokenize_text ''a  b'' = [''a'', ''b'']"
  by code_simp

lemma tokenize_text_empty: "tokenize_text [] = []"
  by (simp add: tokenize_text_def)

text \<open>
  C4. The matches of the tokenizer's pattern are runs of one kind (all whitespace or
  all non-whitespace), never empty, maximal (two neighbouring runs are of different
  kinds), and their concatenation is the text; the tokens are the runs that are not
  whitespace-only, in order. In particular \<open>tokenize("a  b") = ["a", "b"]\<close> and
  \<open>tokenize("") = []\<close>.
\<close>

theorem tokenize_text_runs:
  "concat (findall_runs text) = text
   \<and> (\<forall>r\<in>set (findall_runs text).
         r \<noteq> [] \<and> ((\<forall>c\<in>set r. isspace c) \<or> (\<forall>c\<in>set r. \<not> isspace c)))
   \<and> (\<forall>i. Suc i < length (findall_runs text) \<longrightarrow>
         isspace (hd (findall_runs text ! i)) \<noteq> isspace (hd (findall_runs text ! Suc i)))
   \<and> tokenize_text text = filter (\<lambda>r. \<exists>c\<in>set r. \<not> isspace c) (findall_runs text)
   \<and> tokenize_text ''a  b'' = [''a'', ''b'']
   \<and> tokenize_text [] = []"
  using concat_findall_runs findall_runs_homogeneous findall_runs_alternate
    tokenize_text_filter tokenize_text_example tokenize_text_empty
  by blast

theorem tokenize_text_runs_witness:
  "concat [''a'', ''  '', ''b''] = ''a  b''
   \<and> ''  '' \<in> set (findall_runs ''a  b'') \<and> list_all isspace ''  ''
   \<and> Suc 0 < length (findall_runs ''a  b'')
   \<and> isspace (hd (findall_runs ''a  b'' ! 0)) \<noteq> isspace (hd (findall_runs ''a  b'' ! Suc 0))
   \<and> filter (\<lambda>r. \<exists>c\<in>set r. \<not> isspace c) [''a'', ''  '', ''b''] = [''a'', ''b'']"
proof -
  have sp: "isspace CHR '' ''" and a: "\<not> isspace CHR ''a''" and b: "\<not> isspace CHR ''b''"
    by code_simp+
  from tokenize_text_runs [of "''a  b''"] show ?thesis
    unfolding findall_runs_example by (simp add: sp a b)
qed

section \<open>Properties of the highlighter\<close>

text \<open>
  C3. Without cluster texts (none given, or the empty list) or without emphasis,
  \<open>highlight_pattern\<close> returns the low activation \<open>0.1\<close> for every token, as many
  values as there are tokens, whatever the tokens are. In the same cases the
  dashboard's \<open>highlight_tokens\<close> returns the text as it is, so that nothing is marked
  high there either.
\<close>

theorem highlight_pattern_all_low:
  "(cluster_texts = None \<or> cluster_texts = Some [] \<or> \<not> is_right_panel \<longrightarrow>
      highlight_pattern tokens pattern cluster_id is_right_panel cluster_texts
        = replicate (length tokens) 0.1
      \<and> length (highlight_pattern tokens pattern cluster_id is_right_panel cluster_texts)
        = length tokens)
   \<and> (texts = [] \<or> \<not> is_right_panel \<longrightarrow>
        highlight_tokens example texts is_right_panel = example)"
  by (auto simp: highlight_pattern_def highlight_tokens_def split: option.splits)

theorem highlight_pattern_all_low_witness:
  "highlight_pattern [''Cat'', ''dog''] ''what is known'' None False (Some [''cat cat''])
     = [0.1, 0.1]
   \<and> highlight_pattern [''Cat'', ''dog''] ''what is known'' None True (Some [])
     = [0.1, 0.1]
   \<and> highlight_pattern [''Cat'', ''dog''] ''what is known'' None True None
     = [0.1, 0.1]
   \<and> highlight_pattern [''Cat'', ''dog''] ''what is known'' None True (Some [''cat cat''])
     = [0.9, 0.1]
   \<and> highlight_tokens ''Cat dog'' [''cat cat''] False = ''Cat dog''
   \<and> highlight_tokens ''Cat dog'' [] True = ''Cat dog''"
proof -
  have two: "replicate (length [''Cat'', ''dog'']) (0.1 :: real) = [0.1, 0.1]"
    by simp
  have high: "highlight_pattern [''Cat'', ''dog''] ''what is known'' None True (Some [''cat cat''])
     = [0.9, 0.1]"
    by code_simp
  from highlight_pattern_all_low
         [where cluster_texts = "Some [''cat cat'']" and is_right_panel = False
            and tokens = "[''Cat'', ''dog'']" and pattern = "''what is known''"
            and cluster_id = None and example = "''Cat dog''" and texts = "[''cat cat'']"]
       highlight_pattern_all_low
         [where cluster_texts = "Some []" and is_right_panel = True
            and tokens = "[''Cat'', ''dog'']" and pattern = "''what is known''"
            and cluster_id = None and example = "''Cat dog''" and texts = "[]"]
       highlight_pattern_all_low
         [where cluster_texts = None and is_right_panel = True
            and tokens = "[''Cat'', ''dog'']" and pattern = "''what is known''"
            and cluster_id = None and example = "''Cat dog''" and texts = "[]"]
  show ?thesis unfolding two by (simp add: high)
qed

section \<open>Properties of dictionaries and slices\<close>

lemma map_of_dict_set: "map_of (dict_set d k v) = (map_of d)(k \<mapsto> v)"
  by (induction d) (auto simp: fun_eq_iff)

lemma map_fst_dict_set:
  "map fst (dict_set d k v) = (if k \<in> set (map fst d) then map fst d else map fst d @ [k])"
  by (induction d) (auto simp del: set_map)

lemma keys_dict_set: "fst ` set (dict_set d k v) = insert k (fst ` set d)"
proof -
  have "set (map fst (dict_set d k v)) = insert k (set (map fst d))"
    unfolding map_fst_dict_set by (auto simp del: set_map split: if_splits)
  then show ?thesis by simp
qed

lemma distinct_dict_set: "distinct (map fst d) \<Longrightarrow> distinct (map fst (dict_set d k v))"
proof (induction d)
  case Nil
  then show ?case by simp
next
  case (Cons p d)
  obtain k' v' where p: "p = (k', v')" by (cases p)
  from Cons have "k' \<notin> fst ` set d" and "distinct (map fst d)"
    and "distinct (map fst (dict_set d k v))"
    by (simp_all add: p)
  then show ?case by (auto simp: p keys_dict_set)
qed

lemma dict_get_dict_set:
  "dict_get (dict_set d k v) k' dflt = (if k' = k then v else dict_get d k' dflt)"
  by (simp add: dict_get_def map_of_dict_set)

lemma map_of_None_iff_keys: "map_of d k = None \<longleftrightarrow> k \<notin> fst ` set d"
  by (simp add: map_of_eq_None_iff)

lemma py_slice_prefix:
  "py_slice xs 0 n = take (if n < 0 then nat (int (length xs) + n) else nat n) xs"
  by (auto simp: py_slice_def Let_def min_def max_def add.commute)

lemma py_slice_take: "0 \<le> n \<Longrightarrow> py_slice xs 0 n = take (nat n) xs"
  by (simp add: py_slice_prefix)

lemma py_slice_inner:
  "0 \<le> a \<Longrightarrow> a \<le> b \<Longrightarrow> b \<le> int (length xs) \<Longrightarrow>
     py_slice xs a b = take (nat (b - a)) (drop (nat a) xs)"
  by (auto simp: py_slice_def Let_def min_def max_def)

lemma set_py_range: "set (py_range a b) = {i. a \<le> i \<and> i < b}"
  by (auto simp: py_range_def)

section \<open>Properties of the word scan\<close>

lemma backtrack_le: "backtrack c cs k = Some j \<Longrightarrow> j \<le> k"
  by (induction k) (auto split: if_splits)

lemma take_takeWhile:
  assumes "j \<le> length (takeWhile P xs)"
  shows "take j xs = take j (takeWhile P xs)"
proof -
  have "take j (takeWhile P xs @ dropWhile P xs) = take j (takeWhile P xs)"
    using assms by (simp del: takeWhile_dropWhile_id)
  then show ?thesis by (simp only: takeWhile_dropWhile_id)
qed

lemma findall_words_from_az:
  "w \<in> set (findall_words_from prev s) \<Longrightarrow> w \<noteq> [] \<and> (\<forall>c\<in>set w. is_az c)"
proof (induction prev s rule: findall_words_from.induct)
  case (1 prev)
  then show ?case by simp
next
  case (2 prev c cs)
  let ?m = "if is_boundary prev (Some c) \<and> is_az c
            then backtrack c cs (length (takeWhile is_az cs)) else None"
  show ?case
  proof (cases ?m)
    case None
    with "2.prems" have "w \<in> set (findall_words_from (Some c) cs)" by simp
    with None "2.IH"(1) show ?thesis by blast
  next
    case (Some j)
    with "2.prems" have "w = c # take j cs
        \<or> w \<in> set (findall_words_from (Some (last (c # take j cs))) (drop j cs))"
      by simp
    then show ?thesis
    proof
      assume w: "w = c # take j cs"
      from Some have c: "is_az c" and bt: "backtrack c cs (length (takeWhile is_az cs)) = Some j"
        by (simp_all split: if_splits)
      from bt have "j \<le> length (takeWhile is_az cs)" by (rule backtrack_le)
      then have "take j cs = take j (takeWhile is_az cs)" by (rule take_takeWhile)
      then have "set (take j cs) \<subseteq> set (takeWhile is_az cs)"
        by (simp add: set_take_subset)
      with takeWhile_all [of is_az cs] have "\<forall>x\<in>set (take j cs). is_az x" by blast
      with c w show ?thesis by simp
    next
      assume "w \<in> set (findall_words_from (Some (last (c # take j cs))) (drop j cs))"
      with Some "2.IH"(2) show ?thesis by blast
    qed
  qed
qed

lemma words_of_az: "w \<in> set (words_of texts) \<Longrightarrow> w \<noteq> [] \<and> (\<forall>c\<in>set w. is_az c)"
  unfolding words_of_def findall_words_def by (rule findall_words_from_az)

section \<open>Properties of the counting loops\<close>

text \<open>A loop that counts the keys satisfying \<open>P\<close>, in general.\<close>

lemma counting_keys:
  assumes step: "\<And>d k. step d k = (if P k then dict_set d k (dict_get d k 0 + 1) else d)"
  shows "fst ` set (foldl step d ks) = fst ` set d \<union> {k \<in> set ks. P k}"
proof (induction ks arbitrary: d)
  case Nil
  show ?case by simp
next
  case (Cons k ks)
  have "fst ` set (step d k) = fst ` set d \<union> (if P k then {k} else {})"
    by (simp add: step keys_dict_set)
  with Cons [of "step d k"] show ?case by (auto split: if_splits)
qed

lemma counting_distinct:
  assumes step: "\<And>d k. step d k = (if P k then dict_set d k (dict_get d k 0 + 1) else d)"
  shows "distinct (map fst d) \<Longrightarrow> distinct (map fst (foldl step d ks))"
proof (induction ks arbitrary: d)
  case Nil
  then show ?case by simp
next
  case (Cons k ks)
  from Cons.prems have "distinct (map fst (step d k))"
    by (simp add: step distinct_dict_set)
  with Cons.IH show ?case by simp
qed

lemma counting_get:
  fixes d :: "('k, int) dict"
  assumes step: "\<And>d k. step d k = (if P k then dict_set d k (dict_get d k 0 + 1) else d)"
  shows "dict_get (foldl step d ks) k 0 = dict_get d k 0 + int (count_list (filter P ks) k)"
proof (induction ks arbitrary: d)
  case Nil
  show ?case by simp
next
  case (Cons x ks)
  have "dict_get (step d x) k 0 = dict_get d k 0 + (if P x \<and> x = k then 1 else 0)"
    by (auto simp: step dict_get_dict_set)
  with Cons [of "step d x"] show ?case by auto
qed

lemma dict_get_Nil: "dict_get [] k dflt = dflt"
  by (simp add: dict_get_def)

lemma count_word_step:
  "count_word ml d w
     = (if ml \<le> int (length w) \<and> w \<notin> stop_words then dict_set d w (dict_get d w 0 + 1) else d)"
  by (simp add: count_word_def)

lemma count_fragment_step:
  "count_fragment d f = (if f \<notin> stop_words then dict_set d f (dict_get d f 0 + 1) else d)"
  by (simp add: count_fragment_def)

lemma foldl_count_fragments:
  "foldl (count_fragments ml) d ws
     = foldl count_fragment d
         (concat (map (fragments ml) (filter (\<lambda>w. ml \<le> int (length w) \<and> w \<notin> stop_words) ws)))"
  by (induction ws arbitrary: d) (simp_all add: count_fragments_def)

lemma keys_word_counts:
  "fst ` set (word_counts_of texts ml) = set (surviving_words texts ml)"
  unfolding word_counts_of_def surviving_words_def
  by (simp add: counting_keys [of "count_word ml", OF count_word_step])

lemma distinct_word_counts: "distinct (map fst (word_counts_of texts ml))"
  unfolding word_counts_of_def
  by (rule counting_distinct [of "count_word ml", OF count_word_step]) simp

lemma get_word_counts:
  "dict_get (word_counts_of texts ml) w 0 = int (count_list (surviving_words texts ml) w)"
  unfolding word_counts_of_def surviving_words_def
  by (simp add: counting_get [of "count_word ml", OF count_word_step] dict_get_Nil)

lemma keys_fragment_counts:
  "fst ` set (fragment_counts_of texts ml) = set (counted_fragments texts ml)"
  unfolding fragment_counts_of_def counted_fragments_def surviving_words_def foldl_count_fragments
  by (simp add: counting_keys [of count_fragment, OF count_fragment_step])

lemma distinct_fragment_counts: "distinct (map fst (fragment_counts_of texts ml))"
  unfolding fragment_counts_of_def foldl_count_fragments
  by (rule counting_distinct [of count_fragment, OF count_fragment_step]) simp

lemma get_fragment_counts:
  "dict_get (fragment_counts_of texts ml) f 0 = int (count_list (counted_fragments texts ml) f)"
  unfolding fragment_counts_of_def counted_fragments_def surviving_words_def foldl_count_fragments
  by (simp add: counting_get [of count_fragment, OF count_fragment_step] dict_get_Nil)

section \<open>Properties of the merge\<close>

lemma map_of_add_words:
  "distinct (map fst wc) \<Longrightarrow>
     map_of (foldl add_word acc wc) k
       = (case map_of wc k of Some c \<Rightarrow> Some (c * 2) | None \<Rightarrow> map_of acc k)"
proof (induction wc arbitrary: acc)
  case Nil
  show ?case by simp
next
  case (Cons p wc)
  obtain w c where p: "p = (w, c)" by (cases p)
  from Cons.prems have fresh: "map_of wc w = None" and dist: "distinct (map fst wc)"
    by (simp_all add: p map_of_eq_None_iff)
  have "map_of (add_word acc p) = (map_of acc)(w \<mapsto> c * 2)"
    by (simp add: add_word_def p map_of_dict_set)
  with Cons.IH [OF dist, of "add_word acc p"] fresh show ?case
    by (auto simp: p split: option.splits)
qed

lemma map_of_add_fragments:
  "distinct (map fst fc) \<Longrightarrow>
     map_of (foldl add_fragment acc fc) k
       = (case map_of fc k of
            Some c \<Rightarrow> if c \<ge> 5 then Some (case map_of acc k of None \<Rightarrow> c | Some s \<Rightarrow> s + c)
                      else map_of acc k
          | None \<Rightarrow> map_of acc k)"
proof (induction fc arbitrary: acc)
  case Nil
  show ?case by simp
next
  case (Cons p fc)
  obtain f c where p: "p = (f, c)" by (cases p)
  from Cons.prems have fresh: "map_of fc f = None" and dist: "distinct (map fst fc)"
    by (simp_all add: p map_of_eq_None_iff)
  have step: "map_of (add_fragment acc (f, c))
      = (if c \<ge> 5 then (map_of acc)(f \<mapsto> (case map_of acc f of None \<Rightarrow> c | Some s \<Rightarrow> s + c))
         else map_of acc)"
    by (simp add: add_fragment_def map_of_dict_set split: option.splits)
  note IH = Cons.IH [OF dist, of "add_fragment acc (f, c)"]
  show ?case
  proof (cases "k = f")
    case True
    from IH [unfolded True] fresh
    have "map_of (foldl add_fragment (add_fragment acc (f, c)) fc) f
        = map_of (add_fragment acc (f, c)) f"
      by simp
    then show ?thesis
      unfolding p True by (simp add: step)
  next
    case False
    then have "map_of (add_fragment acc (f, c)) k = map_of acc k"
      by (simp add: step)
    with False show ?thesis
      unfolding p by (simp add: IH split: option.splits)
  qed
qed

lemma map_of_merge_counts:
  assumes "distinct (map fst wc)" and "distinct (map fst fc)"
  shows "map_of (merge_counts wc fc) k
       = (case map_of fc k of
            Some c \<Rightarrow> if c \<ge> 5 then Some (case map_of wc k of None \<Rightarrow> c | Some n \<Rightarrow> n * 2 + c)
                      else map_option (\<lambda>n. n * 2) (map_of wc k)
          | None \<Rightarrow> map_option (\<lambda>n. n * 2) (map_of wc k))"
  unfolding merge_counts_def map_of_add_fragments [OF assms(2)] map_of_add_words [OF assms(1)]
  by (simp split: option.splits)

section \<open>Properties of the fragments\<close>

lemma fragments_iff:
  "f \<in> set (fragments ml w) \<longleftrightarrow>
     (\<exists>frag_len start. ml \<le> frag_len \<and> frag_len < min (int (length w) + 1) 8
        \<and> 0 \<le> start \<and> start < int (length w) - frag_len + 1
        \<and> f = py_slice w start (start + frag_len))"
  by (auto simp: fragments_def set_py_range)

lemma set_py_slice: "set (py_slice xs a b) \<subseteq> set xs"
proof -
  have "set (take n (drop m xs)) \<subseteq> set xs" for n m
    by (meson set_take_subset set_drop_subset subset_trans)
  then show ?thesis by (simp add: py_slice_def Let_def)
qed

lemma fragments_letters: "f \<in> set (fragments ml w) \<Longrightarrow> set f \<subseteq> set w"
  by (auto simp: fragments_iff dest: subsetD [OF set_py_slice])

lemma fragments_length:
  assumes "0 \<le> ml" and "f \<in> set (fragments ml w)"
  shows "ml \<le> int (length f) \<and> length f \<le> 7"
proof -
  from assms(2) obtain frag_len start where
    fl: "ml \<le> frag_len" "frag_len < min (int (length w) + 1) 8"
    and st: "0 \<le> start" "start < int (length w) - frag_len + 1"
    and f: "f = py_slice w start (start + frag_len)"
    unfolding fragments_iff by blast
  from assms(1) fl st have "py_slice w start (start + frag_len)
      = take (nat (start + frag_len - start)) (drop (nat start) w)"
    by (intro py_slice_inner) auto
  with f have "length f = min (nat frag_len) (length w - nat start)" by simp
  with assms(1) fl st have "int (length f) = frag_len" by auto
  with fl show ?thesis by auto
qed

section \<open>Properties of the extractor\<close>

lemma surviving_words_iff:
  "w \<in> set (surviving_words texts ml)
     \<longleftrightarrow> w \<in> set (words_of texts) \<and> ml \<le> int (length w) \<and> w \<notin> stop_words"
  by (simp add: surviving_words_def)

lemma counted_fragments_iff:
  "f \<in> set (counted_fragments texts ml)
     \<longleftrightarrow> f \<notin> stop_words \<and> (\<exists>w\<in>set (surviving_words texts ml). f \<in> set (fragments ml w))"
  by (auto simp: counted_fragments_def)

lemma map_of_present:
  "k \<in> fst ` set d \<Longrightarrow> map_of d k = Some (dict_get d k dflt)"
  by (cases "map_of d k") (simp_all add: dict_get_def map_of_eq_None_iff)

lemma map_of_word_counts:
  "map_of (word_counts_of texts ml) w
     = (if w \<in> set (surviving_words texts ml)
        then Some (int (count_list (surviving_words texts ml) w)) else None)"
  using map_of_present [of w "word_counts_of texts ml" 0]
  by (simp add: keys_word_counts get_word_counts map_of_eq_None_iff)

lemma map_of_fragment_counts:
  "map_of (fragment_counts_of texts ml) f
     = (if f \<in> set (counted_fragments texts ml)
        then Some (int (count_list (counted_fragments texts ml) f)) else None)"
  using map_of_present [of f "fragment_counts_of texts ml" 0]
  by (simp add: keys_fragment_counts get_fragment_counts map_of_eq_None_iff)

lemma count_list_pos: "x \<in> set xs \<Longrightarrow> 0 < count_list xs x"
  by (induction xs) auto

lemma map_of_all_counts:
  "map_of (all_counts_of texts ml) t
     = (if t \<in> set (surviving_words texts ml)
        then Some (int (count_list (surviving_words texts ml) t) * 2
                   + (if 5 \<le> count_list (counted_fragments texts ml) t
                      then int (count_list (counted_fragments texts ml) t) else 0))
        else if 5 \<le> count_list (counted_fragments texts ml) t
             then Some (int (count_list (counted_fragments texts ml) t))
             else None)"
proof -
  have absent: "count_list (counted_fragments texts ml) t = 0"
    if "t \<notin> set (counted_fragments texts ml)"
    using that by (simp add: count_list_0_iff)
  show ?thesis
    unfolding all_counts_of_def
      map_of_merge_counts [OF distinct_word_counts distinct_fragment_counts]
      map_of_word_counts map_of_fragment_counts
    by (simp add: absent)
qed

lemma keys_all_counts:
  "fst ` set (all_counts_of texts ml)
     \<subseteq> set (surviving_words texts ml) \<union> set (counted_fragments texts ml)"
proof
  fix t assume "t \<in> fst ` set (all_counts_of texts ml)"
  then have present: "map_of (all_counts_of texts ml) t \<noteq> None"
    by (simp add: map_of_eq_None_iff)
  show "t \<in> set (surviving_words texts ml) \<union> set (counted_fragments texts ml)"
  proof (rule ccontr)
    assume "t \<notin> set (surviving_words texts ml) \<union> set (counted_fragments texts ml)"
    then have "t \<notin> set (surviving_words texts ml)"
      and "count_list (counted_fragments texts ml) t = 0"
      by (simp_all add: count_list_0_iff)
    then have "map_of (all_counts_of texts ml) t = None"
      by (simp add: map_of_all_counts)
    with present show False by contradiction
  qed
qed

lemma set_sorted_by_score: "set (sorted_by_score d) = set d"
  by (simp add: sorted_by_score_def)

lemma length_sorted_by_score: "length (sorted_by_score d) = length d"
  by (simp add: sorted_by_score_def)

lemma sorted_by_score_descending:
  "sorted_wrt (\<lambda>a b. snd a \<ge> snd b) (sorted_by_score d)"
proof -
  have "sorted (map (\<lambda>x. - snd x) (sorted_by_score d))"
    unfolding sorted_by_score_def by (rule sorted_sort_key)
  then show ?thesis by (simp add: sorted_map)
qed

lemma sorted_by_score_stable:
  "filter (\<lambda>x. snd x = s) (sorted_by_score d) = filter (\<lambda>x. snd x = s) d"
  using sort_key_stable [of "\<lambda>x. - snd x" "- s" d]
  by (simp add: sorted_by_score_def)

lemma analyze_common_words_keys:
  "set (analyze_common_words texts ml tn) \<subseteq> fst ` set (all_counts_of texts ml)"
proof -
  have "set (py_slice (sorted_by_score (all_counts_of texts ml)) 0 tn)
      \<subseteq> set (all_counts_of texts ml)"
    using set_py_slice [of "sorted_by_score (all_counts_of texts ml)" 0 tn]
    by (simp add: set_sorted_by_score)
  then show ?thesis
    by (auto simp: analyze_common_words_def Let_def)
qed

lemma analyze_common_words_terms:
  assumes "t \<in> set (analyze_common_words texts ml tn)"
  shows "t \<in> set (surviving_words texts ml) \<or> t \<in> set (counted_fragments texts ml)"
  using assms analyze_common_words_keys keys_all_counts by blast

section \<open>The claims about the common-term extractor\<close>

lemma analyze_common_words_stop_example: "analyze_common_words [''the the the''] 3 2 = []"
  by code_simp

text \<open>
  C5. No term returned by \<open>analyze_common_words\<close> is a stop word, for any texts,
  \<open>min_length\<close> and \<open>top_n\<close>: the keys of \<open>word_counts\<close> are words of length at least
  \<open>min_length\<close> outside the stop-word set, the keys of \<open>fragment_counts\<close> are outside the
  stop-word set, and \<open>analyze_common_words(["the the the"])\<close> is \<open>[]\<close>.
\<close>

theorem stop_words_never_returned:
  "(\<forall>t\<in>set (analyze_common_words texts min_length top_n). t \<notin> stop_words)
   \<and> (\<forall>w\<in>fst ` set (word_counts_of texts min_length).
         min_length \<le> int (length w) \<and> w \<notin> stop_words)
   \<and> (\<forall>f\<in>fst ` set (fragment_counts_of texts min_length). f \<notin> stop_words)
   \<and> analyze_common_words [''the the the''] 3 2 = []"
proof (intro conjI ballI)
  fix t assume "t \<in> set (analyze_common_words texts min_length top_n)"
  then have "t \<in> set (surviving_words texts min_length)
      \<or> t \<in> set (counted_fragments texts min_length)"
    by (rule analyze_common_words_terms)
  then show "t \<notin> stop_words"
    by (auto simp: surviving_words_iff counted_fragments_iff)
next
  fix w assume "w \<in> fst ` set (word_counts_of texts min_length)"
  then have w: "w \<in> set (surviving_words texts min_length)"
    by (simp only: keys_word_counts)
  from w show "min_length \<le> int (length w)" by (simp add: surviving_words_iff)
  from w show "w \<notin> stop_words" by (simp add: surviving_words_iff)
next
  fix f assume "f \<in> fst ` set (fragment_counts_of texts min_length)"
  then have "f \<in> set (counted_fragments texts min_length)"
    by (simp only: keys_fragment_counts)
  then show "f \<notin> stop_words" by (simp add: counted_fragments_iff)
next
  show "analyze_common_words [''the the the''] 3 2 = []"
    by (rule analyze_common_words_stop_example)
qed

theorem stop_words_never_returned_witness:
  "''the'' \<in> stop_words
   \<and> count_list (words_of [''the cat the the'']) ''the'' = 3
   \<and> analyze_common_words [''the cat the the''] 3 2 = [''cat'']
   \<and> map fst (word_counts_of [''the cat the the''] 3) = [''cat'']
   \<and> ''cat'' \<notin> stop_words"
proof -
  have the: "''the'' \<in> stop_words" by code_simp
  have n: "count_list (words_of [''the cat the the'']) ''the'' = 3" by code_simp
  have r: "analyze_common_words [''the cat the the''] 3 2 = [''cat'']" by code_simp
  have k: "map fst (word_counts_of [''the cat the the''] 3) = [''cat'']" by code_simp
  from stop_words_never_returned [of "[''the cat the the'']" 3 2]
  have "''cat'' \<notin> stop_words" unfolding r by simp
  with the n r k show ?thesis by simp
qed

lemma length_py_slice_0: "0 \<le> n \<Longrightarrow> int (length (py_slice xs 0 n)) \<le> n"
  by (simp add: py_slice_take)

lemma analyze_common_words_length:
  "0 \<le> top_n \<Longrightarrow> int (length (analyze_common_words texts min_length top_n)) \<le> top_n"
  by (simp add: analyze_common_words_def Let_def length_py_slice_0)

text \<open>
  C9, as the code has it. For every texts, \<open>min_length\<close> and \<open>top_n\<close>, every returned
  term consists of lowercase ASCII letters only, has length at least \<open>min_length\<close> and is
  not a stop word. At most \<open>top_n\<close> terms are returned when \<open>top_n\<close> is not negative;
  every term is non-empty when \<open>min_length\<close> is at least 1; a term that is not one of
  the counted whole words has length at most 7 when \<open>min_length\<close> is not negative.
\<close>

theorem analyze_common_words_shape:
  "(0 \<le> top_n \<longrightarrow> int (length (analyze_common_words texts min_length top_n)) \<le> top_n)
   \<and> (\<forall>t\<in>set (analyze_common_words texts min_length top_n).
         (\<forall>c\<in>set t. is_az c)
         \<and> min_length \<le> int (length t)
         \<and> t \<notin> stop_words
         \<and> (1 \<le> min_length \<longrightarrow> t \<noteq> [])
         \<and> (0 \<le> min_length \<and> t \<notin> set (surviving_words texts min_length) \<longrightarrow> length t \<le> 7))"
proof (rule conjI)
  show "0 \<le> top_n \<longrightarrow> int (length (analyze_common_words texts min_length top_n)) \<le> top_n"
    by (simp add: analyze_common_words_length)
next
  show "\<forall>t\<in>set (analyze_common_words texts min_length top_n).
         (\<forall>c\<in>set t. is_az c)
         \<and> min_length \<le> int (length t)
         \<and> t \<notin> stop_words
         \<and> (1 \<le> min_length \<longrightarrow> t \<noteq> [])
         \<and> (0 \<le> min_length \<and> t \<notin> set (surviving_words texts min_length) \<longrightarrow> length t \<le> 7)"
  proof (rule ballI)
    fix t assume t: "t \<in> set (analyze_common_words texts min_length top_n)"
    then have src: "t \<in> set (surviving_words texts min_length)
        \<or> t \<in> set (counted_fragments texts min_length)"
      by (rule analyze_common_words_terms)
    have word: "w \<noteq> [] \<and> (\<forall>c\<in>set w. is_az c) \<and> min_length \<le> int (length w) \<and> w \<notin> stop_words"
      if "w \<in> set (surviving_words texts min_length)" for w
      using that words_of_az [of w texts] by (simp add: surviving_words_iff)
    have frag: "\<exists>w\<in>set (surviving_words texts min_length). t \<in> set (fragments min_length w)"
      if "t \<notin> set (surviving_words texts min_length)"
      using that src by (auto simp: counted_fragments_iff)
    have letters: "\<forall>c\<in>set t. is_az c"
    proof (cases "t \<in> set (surviving_words texts min_length)")
      case True
      with word show ?thesis by blast
    next
      case False
      from frag [OF False] obtain w where w: "w \<in> set (surviving_words texts min_length)"
        and "t \<in> set (fragments min_length w)" by blast
      then have "set t \<subseteq> set w" by (simp add: fragments_letters)
      with word [OF w] show ?thesis by blast
    qed
    have len: "min_length \<le> int (length t)"
    proof (cases "t \<in> set (surviving_words texts min_length)")
      case True
      with word show ?thesis by blast
    next
      case False
      from frag [OF False] obtain w where "t \<in> set (fragments min_length w)" by blast
      then show ?thesis
        using fragments_length [of min_length t w] by (cases "0 \<le> min_length") auto
    qed
    have stop: "t \<notin> stop_words"
      using src by (auto simp: surviving_words_iff counted_fragments_iff)
    have nonempty: "t \<noteq> []" if "1 \<le> min_length"
      using that len by auto
    have short: "length t \<le> 7"
      if "0 \<le> min_length \<and> t \<notin> set (surviving_words texts min_length)"
    proof -
      from that frag obtain w where "t \<in> set (fragments min_length w)" by blast
      with that show ?thesis using fragments_length [of min_length t w] by simp
    qed
    from letters len stop nonempty short
    show "(\<forall>c\<in>set t. is_az c)
         \<and> min_length \<le> int (length t)
         \<and> t \<notin> stop_words
         \<and> (1 \<le> min_length \<longrightarrow> t \<noteq> [])
         \<and> (0 \<le> min_length \<and> t \<notin> set (surviving_words texts min_length) \<longrightarrow> length t \<le> 7)"
      by blast
  qed
qed

theorem analyze_common_words_shape_witness:
  "analyze_common_words [''elephants cats cats cats cats cats''] 3 4
     = [''cats'', ''cat'', ''ats'', ''elephants'']
   \<and> int (length (analyze_common_words [''elephants cats cats cats cats cats''] 3 4)) \<le> 4
   \<and> surviving_words [''elephants cats cats cats cats cats''] 3
     = [''elephants'', ''cats'', ''cats'', ''cats'', ''cats'', ''cats'']
   \<and> list_all is_az ''cat'' \<and> ''cat'' \<notin> stop_words \<and> length ''cat'' \<le> 7
   \<and> length ''elephants'' = 9"
proof -
  have r: "analyze_common_words [''elephants cats cats cats cats cats''] 3 4
      = [''cats'', ''cat'', ''ats'', ''elephants'']"
    by code_simp
  have s: "surviving_words [''elephants cats cats cats cats cats''] 3
      = [''elephants'', ''cats'', ''cats'', ''cats'', ''cats'', ''cats'']"
    by code_simp
  from analyze_common_words_shape [of 4 "[''elephants cats cats cats cats cats'']" 3]
  show ?thesis unfolding r s by (simp add: list_all_iff)
qed

theorem analyze_common_words_shape_counterexample:
  "[] \<in> set (analyze_common_words [''cats''] 0 2)
   \<and> \<not> int (length (analyze_common_words [''cats dogs''] 3 (- 1))) \<le> - 1
   \<and> ''aaaaaaaa'' \<in> set (analyze_common_words [''aaaaaaaaaaaaa''] (- 5) 8)
   \<and> ''aaaaaaaa'' \<notin> set (surviving_words [''aaaaaaaaaaaaa''] (- 5))
   \<and> \<not> length ''aaaaaaaa'' \<le> 7"
proof -
  have a: "analyze_common_words [''cats''] 0 2 = ['''', ''cats'']" by code_simp
  have b: "analyze_common_words [''cats dogs''] 3 (- 1) = [''cats'']" by code_simp
  have c: "analyze_common_words [''aaaaaaaaaaaaa''] (- 5) 8
      = ['''', ''aa'', ''aaa'', ''aaaa'', ''aaaaa'', ''aaaaaa'', ''aaaaaaa'', ''aaaaaaaa'']"
    by code_simp
  have d: "surviving_words [''aaaaaaaaaaaaa''] (- 5) = [''aaaaaaaaaaaaa'']" by code_simp
  show ?thesis unfolding a b c d by simp
qed

lemma map_of_whole_word_scores:
  "map_of (foldl add_word [] (word_counts_of texts min_length)) w
     = (if w \<in> set (surviving_words texts min_length)
        then Some (int (count_list (surviving_words texts min_length) w) * 2) else None)"
  by (simp add: map_of_add_words [OF distinct_word_counts] map_of_word_counts)

lemma distinct_foldl_dict:
  assumes "\<And>acc p. distinct (map fst acc) \<Longrightarrow> distinct (map fst (step acc p))"
  shows "distinct (map fst acc) \<Longrightarrow> distinct (map fst (foldl step acc ps))"
  by (induction ps arbitrary: acc) (simp_all add: assms)

lemma distinct_merge_counts: "distinct (map fst (merge_counts wc fc))"
proof -
  have w: "distinct (map fst (add_word acc p))" if "distinct (map fst acc)" for acc p
    using that by (cases p) (simp add: add_word_def distinct_dict_set)
  have f: "distinct (map fst (add_fragment acc p))" if "distinct (map fst acc)" for acc p
    using that by (cases p) (simp add: add_fragment_def distinct_dict_set split: option.splits)
  have "distinct (map fst (foldl add_word [] wc))"
    by (rule distinct_foldl_dict [where step = add_word]) (simp_all add: w)
  then show ?thesis
    unfolding merge_counts_def
    by (rule distinct_foldl_dict [where step = add_fragment, rotated]) (simp add: f)
qed

lemma analyze_common_words_cat_example:
  "analyze_common_words [''cat cat cat dog''] 3 1 = [''cat'']"
  by code_simp

lemma all_counts_cat_example:
  "all_counts_of [''cat cat cat dog''] 3 = [(''cat'', 6), (''dog'', 2)]"
  by code_simp

text \<open>
  C1. After the first loop of the merge every counted whole word has the score
  \<open>word_counts[word] * 2\<close>, the number of its counted occurrences times 2. In the merged
  map a term has a score if and only if it is a counted whole word or a fragment counted
  at least 5 times; the score of a whole word is its count times 2, plus its fragment
  count when that is at least 5, and the score of any other term is its fragment
  count. For non-empty texts the result is the list of terms of the merged map sorted
  by descending score and cut by the slice \<open>[:top_n]\<close>, the first \<open>top_n\<close> entries when
  \<open>top_n\<close> is not negative. For \<open>["cat cat cat dog"]\<close>, \<open>min_length = 3\<close>, \<open>top_n = 1\<close>
  the scores are 6 for cat and 2 for dog and the result is \<open>["cat"]\<close>.
\<close>

theorem analyze_common_words_scores:
  "map_of (foldl add_word [] (word_counts_of texts min_length)) t
     = (if t \<in> set (surviving_words texts min_length)
        then Some (int (count_list (surviving_words texts min_length) t) * 2) else None)
   \<and> map_of (all_counts_of texts min_length) t
     = (if t \<in> set (surviving_words texts min_length)
        then Some (int (count_list (surviving_words texts min_length) t) * 2
                   + (if 5 \<le> count_list (counted_fragments texts min_length) t
                      then int (count_list (counted_fragments texts min_length) t) else 0))
        else if 5 \<le> count_list (counted_fragments texts min_length) t
             then Some (int (count_list (counted_fragments texts min_length) t))
             else None)
   \<and> distinct (map fst (all_counts_of texts min_length))
   \<and> set (sorted_by_score (all_counts_of texts min_length)) = set (all_counts_of texts min_length)
   \<and> length (sorted_by_score (all_counts_of texts min_length))
       = length (all_counts_of texts min_length)
   \<and> sorted_wrt (\<lambda>a b. snd a \<ge> snd b) (sorted_by_score (all_counts_of texts min_length))
   \<and> (texts \<noteq> [] \<longrightarrow>
        analyze_common_words texts min_length top_n
          = map fst (py_slice (sorted_by_score (all_counts_of texts min_length)) 0 top_n))
   \<and> (texts \<noteq> [] \<and> 0 \<le> top_n \<longrightarrow>
        analyze_common_words texts min_length top_n
          = map fst (take (nat top_n) (sorted_by_score (all_counts_of texts min_length))))
   \<and> all_counts_of [''cat cat cat dog''] 3 = [(''cat'', 6), (''dog'', 2)]
   \<and> analyze_common_words [''cat cat cat dog''] 3 1 = [''cat'']"
proof -
  let ?ac = "all_counts_of texts min_length"
  have c1: "map_of (foldl add_word [] (word_counts_of texts min_length)) t
     = (if t \<in> set (surviving_words texts min_length)
        then Some (int (count_list (surviving_words texts min_length) t) * 2) else None)"
    by (rule map_of_whole_word_scores)
  have c2: "map_of ?ac t
     = (if t \<in> set (surviving_words texts min_length)
        then Some (int (count_list (surviving_words texts min_length) t) * 2
                   + (if 5 \<le> count_list (counted_fragments texts min_length) t
                      then int (count_list (counted_fragments texts min_length) t) else 0))
        else if 5 \<le> count_list (counted_fragments texts min_length) t
             then Some (int (count_list (counted_fragments texts min_length) t))
             else None)"
    by (rule map_of_all_counts)
  have c3: "distinct (map fst ?ac)"
    unfolding all_counts_of_def by (rule distinct_merge_counts)
  have c4: "set (sorted_by_score ?ac) = set ?ac"
    by (rule set_sorted_by_score)
  have c5: "length (sorted_by_score ?ac) = length ?ac"
    by (rule length_sorted_by_score)
  have c6: "sorted_wrt (\<lambda>a b. snd a \<ge> snd b) (sorted_by_score ?ac)"
    by (rule sorted_by_score_descending)
  have c7: "texts \<noteq> [] \<longrightarrow>
        analyze_common_words texts min_length top_n
          = map fst (py_slice (sorted_by_score ?ac) 0 top_n)"
    by (simp add: analyze_common_words_def Let_def)
  have c8: "texts \<noteq> [] \<and> 0 \<le> top_n \<longrightarrow>
        analyze_common_words texts min_length top_n
          = map fst (take (nat top_n) (sorted_by_score ?ac))"
    by (simp add: analyze_common_words_def Let_def py_slice_take)
  note c9 = all_counts_cat_example and c10 = analyze_common_words_cat_example
  from c1 c2 c3 c4 c5 c6 c7 c8 c9 c10 show ?thesis
    by (intro conjI)
qed

theorem analyze_common_words_scores_witness:
  "''cat'' \<in> set (surviving_words [''cat cat cat cat cat dog''] 3)
   \<and> count_list (surviving_words [''cat cat cat cat cat dog''] 3) ''cat'' = 5
   \<and> count_list (counted_fragments [''cat cat cat cat cat dog''] 3) ''cat'' = 5
   \<and> map_of (foldl add_word [] (word_counts_of [''cat cat cat cat cat dog''] 3)) ''cat''
       = Some 10
   \<and> map_of (all_counts_of [''cat cat cat cat cat dog''] 3) ''cat'' = Some 15
   \<and> sorted_by_score (all_counts_of [''cats cats cats cats cats''] 3)
       = [(''cats'', 15), (''cat'', 5), (''ats'', 5)]
   \<and> analyze_common_words [''cats cats cats cats cats''] 3 2 = [''cats'', ''cat'']"
proof -
  have s: "surviving_words [''cat cat cat cat cat dog''] 3
      = [''cat'', ''cat'', ''cat'', ''cat'', ''cat'', ''dog'']"
    by code_simp
  have f: "counted_fragments [''cat cat cat cat cat dog''] 3
      = [''cat'', ''cat'', ''cat'', ''cat'', ''cat'', ''dog'']"
    by code_simp
  have o: "sorted_by_score (all_counts_of [''cats cats cats cats cats''] 3)
      = [(''cats'', 15), (''cat'', 5), (''ats'', 5)]"
    by code_simp
  note A = analyze_common_words_scores [of "[''cat cat cat cat cat dog'']" 3 "''cat''" 2]
  from A have a1: "map_of (foldl add_word [] (word_counts_of [''cat cat cat cat cat dog''] 3))
      ''cat'' = Some 10"
    unfolding s by simp
  from A have a2: "map_of (all_counts_of [''cat cat cat cat cat dog''] 3) ''cat'' = Some 15"
    unfolding s f by simp
  note B = analyze_common_words_scores [of "[''cats cats cats cats cats'']" 3 "''cat''" 2]
  from B have "analyze_common_words [''cats cats cats cats cats''] 3 2
      = map fst (py_slice (sorted_by_score (all_counts_of [''cats cats cats cats cats''] 3)) 0 2)"
    by simp
  then have b: "analyze_common_words [''cats cats cats cats cats''] 3 2 = [''cats'', ''cat'']"
    unfolding o by (simp add: py_slice_take)
  from a1 a2 b o show ?thesis unfolding s f by simp
qed

section \<open>The claim about the marked tokens\<close>

lemma is_highlighted_iff:
  "is_highlighted common_words token \<longleftrightarrow>
     clean_token token \<noteq> []
     \<and> (\<exists>t\<in>set common_words. sublist t (clean_token token) \<or> sublist (clean_token token) t)"
  by (simp add: is_highlighted_def list_ex_iff)

text \<open>
  C2, as the code has it. With cluster texts and emphasis, a token is marked high
  (\<open>0.9\<close>) if and only if its \<open>clean_token\<close>, the lower-cased token without its non-word
  characters, is non-empty and some common term of the cluster (\<open>min_length = 3\<close>,
  \<open>top_n = 2\<close>) is a substring of it or has it as a substring; otherwise it is marked
  low (\<open>0.1\<close>). The dashboard's \<open>highlight_tokens\<close> wraps every token of the text in the
  high or low markup by the same test.
\<close>

theorem highlight_marks_overlap:
  "texts \<noteq> [] \<Longrightarrow>
     length (highlight_pattern tokens pattern cluster_id True (Some texts)) = length tokens
     \<and> (\<forall>i<length tokens.
           highlight_pattern tokens pattern cluster_id True (Some texts) ! i
             = (if clean_token (tokens ! i) \<noteq> []
                   \<and> (\<exists>t\<in>set (analyze_common_words texts 3 2).
                         sublist t (clean_token (tokens ! i))
                         \<or> sublist (clean_token (tokens ! i)) t)
                then 0.9 else 0.1))
     \<and> clean_token token = filter isword (map lower_char token)
     \<and> highlight_tokens text texts True
         = concat (map (\<lambda>token.
              if clean_token token \<noteq> []
                 \<and> (\<exists>t\<in>set (analyze_common_words texts 3 2).
                       sublist t (clean_token token) \<or> sublist (clean_token token) t)
              then span_high token else span_low token) (tokenize_text text))"
  by (simp add: highlight_pattern_def highlight_tokens_def Let_def is_highlighted_iff
      clean_token_def lower_def)

theorem highlight_marks_overlap_witness:
  "analyze_common_words [''cat cat''] 3 2 = [''cat'']
   \<and> clean_token ''Cat,'' = ''cat''
   \<and> clean_token ''...'' = []
   \<and> highlight_pattern [''Cat,'', ''dog'', ''...''] ''what is known'' None True (Some [''cat cat''])
       = [0.9, 0.1, 0.1]
   \<and> highlight_tokens ''Cat, dog'' [''cat cat''] True
       = span_high ''Cat,'' @ span_low ''dog''"
proof -
  have cw: "analyze_common_words [''cat cat''] 3 2 = [''cat'']" by code_simp
  have c1: "clean_token ''Cat,'' = ''cat''" by code_simp
  have c2: "clean_token ''dog'' = ''dog''" by code_simp
  have c3: "clean_token ''...'' = []" by code_simp
  have tk: "tokenize_text ''Cat, dog'' = [''Cat,'', ''dog'']" by code_simp
  have s1: "sublist ''cat'' ''cat''" by simp
  have s2: "\<not> sublist ''cat'' ''dog''" by code_simp
  have s3: "\<not> sublist ''dog'' ''cat''" by code_simp
  note T = highlight_marks_overlap
    [of "[''cat cat'']" "[''Cat,'', ''dog'', ''...'']" "''what is known''" None "''Cat,''"
        "''Cat, dog''"]
  from T have len: "length (highlight_pattern [''Cat,'', ''dog'', ''...''] ''what is known''
      None True (Some [''cat cat''])) = 3"
    by simp
  from T have "\<forall>i<3. highlight_pattern [''Cat,'', ''dog'', ''...''] ''what is known''
      None True (Some [''cat cat'']) ! i
      = (if clean_token ([''Cat,'', ''dog'', ''...''] ! i) \<noteq> []
           \<and> (\<exists>t\<in>set [''cat''].
                 sublist t (clean_token ([''Cat,'', ''dog'', ''...''] ! i))
                 \<or> sublist (clean_token ([''Cat,'', ''dog'', ''...''] ! i)) t)
         then 0.9 else 0.1)"
    unfolding cw by simp
  then have nth: "highlight_pattern [''Cat,'', ''dog'', ''...''] ''what is known''
      None True (Some [''cat cat'']) ! 0 = 0.9"
    "highlight_pattern [''Cat,'', ''dog'', ''...''] ''what is known''
      None True (Some [''cat cat'']) ! Suc 0 = 0.1"
    "highlight_pattern [''Cat,'', ''dog'', ''...''] ''what is known''
      None True (Some [''cat cat'']) ! Suc (Suc 0) = 0.1"
    by (simp_all add: c1 c2 c3 s1 s2 s3 numeral_3_eq_3 del: sublist_code)
  have hp: "highlight_pattern [''Cat,'', ''dog'', ''...''] ''what is known'' None True
      (Some [''cat cat'']) = [0.9, 0.1, 0.1]"
    by (rule nth_equalityI) (auto simp: len nth less_Suc_eq numeral_3_eq_3)
  from T have "highlight_tokens ''Cat, dog'' [''cat cat''] True
      = concat (map (\<lambda>token.
              if clean_token token \<noteq> []
                 \<and> (\<exists>t\<in>set [''cat''].
                       sublist t (clean_token token) \<or> sublist (clean_token token) t)
              then span_high token else span_low token) [''Cat,'', ''dog''])"
    unfolding cw tk by simp
  then have ht: "highlight_tokens ''Cat, dog'' [''cat cat''] True
       = span_high ''Cat,'' @ span_low ''dog''"
    by (simp add: c1 c2 s1 s2 s3 del: sublist_code)
  from cw c1 c3 hp ht show ?thesis by simp
qed

text \<open>
  The claim read without the lower-casing fails: the token \<open>Cat\<close> is marked high for the
  common term \<open>cat\<close>, although \<open>Cat\<close> without its non-word characters is \<open>Cat\<close>, which
  neither contains \<open>cat\<close> nor is contained in it.
\<close>

theorem highlight_marks_overlap_counterexample:
  "highlight_pattern [''Cat''] ''what is known'' None True (Some [''cat cat'']) = [0.9]
   \<and> analyze_common_words [''cat cat''] 3 2 = [''cat'']
   \<and> filter isword ''Cat'' = ''Cat''
   \<and> \<not> sublist ''cat'' ''Cat''
   \<and> \<not> sublist ''Cat'' ''cat''"
proof -
  have a: "highlight_pattern [''Cat''] ''what is known'' None True (Some [''cat cat'']) = [0.9]"
    by code_simp
  have b: "analyze_common_words [''cat cat''] 3 2 = [''cat'']" by code_simp
  have c: "filter isword ''Cat'' = ''Cat''" by code_simp
  have d: "\<not> sublist ''cat'' ''Cat''" by code_simp
  have e: "\<not> sublist ''Cat'' ''cat''" by code_simp
  from a b c d e show ?thesis by blast
qed

section \<open>Properties of the grouping\<close>

lemma map_fst_add_example:
  "map fst (add_example d (l, e))
     = (if l \<in> set (map fst d) then map fst d else map fst d @ [l])"
  by (simp add: add_example_def Let_def map_fst_dict_set map_of_eq_None_iff del: set_map)

lemma dict_get_add_example:
  "dict_get (add_example d (l, e)) k []
     = (if k = l then dict_get d l [] @ [e] else dict_get d k [])"
  by (cases "map_of d l") (auto simp: add_example_def Let_def dict_get_def map_of_dict_set)

lemma first_seen_snoc:
  "rev (remdups (rev (ls @ [l])))
     = (if l \<in> set ls then rev (remdups (rev ls)) else rev (remdups (rev ls)) @ [l])"
  by simp

lemma keys_foldl_add_example:
  "map fst (foldl add_example [] items) = rev (remdups (rev (map fst items)))"
proof (induction items rule: rev_induct)
  case Nil
  show ?case by simp
next
  case (snoc p items)
  obtain l e where p: "p = (l, e)" by (cases p)
  from snoc show ?case
    by (simp add: p map_fst_add_example)
qed

lemma get_foldl_add_example:
  "dict_get (foldl add_example [] items) k [] = map snd (filter (\<lambda>p. fst p = k) items)"
proof (induction items arbitrary: k rule: rev_induct)
  case Nil
  show ?case by (simp add: dict_get_Nil)
next
  case (snoc p items)
  obtain l e where p: "p = (l, e)" by (cases p)
  from snoc show ?case by (simp add: p dict_get_add_example)
qed

lemma keys_group_examples:
  "map fst (group_examples labels examples)
     = rev (remdups (rev (map fst (zip labels examples))))"
  unfolding group_examples_def by (rule keys_foldl_add_example)

lemma map_of_group_examples:
  assumes "k \<in> set (map fst (zip labels examples))"
  shows "map_of (group_examples labels examples) k
     = Some (map snd (filter (\<lambda>p. fst p = k) (zip labels examples)))"
proof -
  have "k \<in> fst ` set (group_examples labels examples)"
    using assms keys_group_examples [of labels examples]
    by (metis set_map set_remdups set_rev)
  then have "map_of (group_examples labels examples) k
      = Some (dict_get (group_examples labels examples) k [])"
    by (rule map_of_present)
  then show ?thesis
    by (simp add: group_examples_def get_foldl_add_example)
qed

lemma sort_keys_group_examples:
  "sort (map fst (group_examples labels examples))
     = sorted_list_of_set (set (map fst (zip labels examples)))"
proof -
  have "distinct (rev (remdups (rev (map fst (zip labels examples)))))" by simp
  then have "sort (rev (remdups (rev (map fst (zip labels examples)))))
      = sorted_list_of_set (set (rev (remdups (rev (map fst (zip labels examples))))))"
    by (metis sorted_list_of_set_sort_remdups distinct_remdups_id)
  then show ?thesis by (simp add: keys_group_examples)
qed

section \<open>The claims about the renderer of the dashboard\<close>

lemma display_cluster_data_clusters:
  assumes "cluster_labels data = Some labels" and "text_examples data = Some examples"
  shows "display_cluster_data data is_right_panel
     = concat (map (\<lambda>cluster_id. display_cluster is_right_panel cluster_id
                      (map snd (filter (\<lambda>p. fst p = cluster_id) (zip labels examples))))
                   (sorted_list_of_set (set (map fst (zip labels examples)))))"
proof -
  let ?ids = "sorted_list_of_set (set (map fst (zip labels examples)))"
  have same: "map (\<lambda>cluster_id. display_cluster is_right_panel cluster_id
              (the (map_of (group_examples labels examples) cluster_id))) ?ids
      = map (\<lambda>cluster_id. display_cluster is_right_panel cluster_id
              (map snd (filter (\<lambda>p. fst p = cluster_id) (zip labels examples)))) ?ids"
    by (rule map_cong) (simp_all add: map_of_group_examples del: set_map)
  have "display_cluster_data data is_right_panel
      = concat (map (\<lambda>cluster_id. display_cluster is_right_panel cluster_id
              (the (map_of (group_examples labels examples) cluster_id)))
          (sort (map fst (group_examples labels examples))))"
    by (simp add: display_cluster_data_def assms Let_def)
  also have "\<dots> = concat (map (\<lambda>cluster_id. display_cluster is_right_panel cluster_id
              (the (map_of (group_examples labels examples) cluster_id))) ?ids)"
    by (simp only: sort_keys_group_examples)
  also have "\<dots> = concat (map (\<lambda>cluster_id. display_cluster is_right_panel cluster_id
              (map snd (filter (\<lambda>p. fst p = cluster_id) (zip labels examples)))) ?ids)"
    by (simp only: same)
  finally show ?thesis .
qed

lemma group_examples_example:
  "group_examples [1, 0, 1] [e0, e1, e2] = [(1, [e0, e2]), (0, [e1])]"
  by (simp add: group_examples_def add_example_def dict_get_def)

lemma display_cluster_data_example:
  "display_cluster_data
     \<lparr>checkpoint_step = step, text_examples = Some [e0, e1, e2], cluster_labels = Some [1, 0, 1]\<rparr>
     is_right_panel
   = display_cluster is_right_panel 0 [e1] @ display_cluster is_right_panel 1 [e0, e2]"
proof -
  let ?data = "\<lparr>checkpoint_step = step, text_examples = Some [e0, e1, e2],
                cluster_labels = Some [1, 0, 1]\<rparr>"
  have ids: "sorted_list_of_set (set (map fst (zip [1, 0, 1 :: int] [e0, e1, e2]))) = [0, 1]"
    unfolding sorted_list_of_set_sort_remdups by simp
  have "display_cluster_data ?data is_right_panel
      = concat (map (\<lambda>cluster_id. display_cluster is_right_panel cluster_id
                      (map snd (filter (\<lambda>p. fst p = cluster_id) (zip [1, 0, 1] [e0, e1, e2]))))
                   (sorted_list_of_set (set (map fst (zip [1, 0, 1 :: int] [e0, e1, e2])))))"
    by (rule display_cluster_data_clusters) simp_all
  then show ?thesis
    unfolding ids by simp
qed

text \<open>
  C6, as the code has it. The grouping dictionary of the dashboard holds the distinct
  labels in first-seen order and under each label its examples in their original
  order; the renderer then walks \<open>sorted(clusters.keys())\<close>, so the clusters appear in
  ascending order of their labels, each with its examples in their original order. For
  \<open>cluster_labels = [1, 0, 1]\<close> cluster 0 holds \<open>[examples[1]]\<close>, cluster 1 holds
  \<open>[examples[0], examples[2]]\<close>, and cluster 0 is rendered first.
\<close>

theorem clusters_grouped_then_sorted:
  "map fst (group_examples labels examples)
     = rev (remdups (rev (map fst (zip labels examples))))
   \<and> (\<forall>k\<in>set (map fst (zip labels examples)).
         map_of (group_examples labels examples) k
           = Some (map snd (filter (\<lambda>p. fst p = k) (zip labels examples))))
   \<and> (cluster_labels data = Some labels \<and> text_examples data = Some examples \<longrightarrow>
        display_cluster_data data is_right_panel
          = concat (map (\<lambda>cluster_id. display_cluster is_right_panel cluster_id
                           (map snd (filter (\<lambda>p. fst p = cluster_id) (zip labels examples))))
                        (sorted_list_of_set (set (map fst (zip labels examples))))))
   \<and> group_examples [1, 0, 1] [e0, e1, e2] = [(1, [e0, e2]), (0, [e1])]
   \<and> display_cluster_data
        \<lparr>checkpoint_step = step, text_examples = Some [e0, e1, e2],
         cluster_labels = Some [1, 0, 1]\<rparr> is_right_panel
       = display_cluster is_right_panel 0 [e1] @ display_cluster is_right_panel 1 [e0, e2]"
proof -
  have c1: "map fst (group_examples labels examples)
     = rev (remdups (rev (map fst (zip labels examples))))"
    by (rule keys_group_examples)
  have c2: "\<forall>k\<in>set (map fst (zip labels examples)).
         map_of (group_examples labels examples) k
           = Some (map snd (filter (\<lambda>p. fst p = k) (zip labels examples)))"
    using map_of_group_examples by blast
  have c3: "cluster_labels data = Some labels \<and> text_examples data = Some examples \<longrightarrow>
        display_cluster_data data is_right_panel
          = concat (map (\<lambda>cluster_id. display_cluster is_right_panel cluster_id
                           (map snd (filter (\<lambda>p. fst p = cluster_id) (zip labels examples))))
                        (sorted_list_of_set (set (map fst (zip labels examples)))))"
    using display_cluster_data_clusters by blast
  note c4 = group_examples_example [of e0 e1 e2]
    and c5 = display_cluster_data_example [of step e0 e1 e2 is_right_panel]
  from c1 c2 c3 c4 c5 show ?thesis by (intro conjI)
qed

theorem clusters_grouped_then_sorted_witness:
  "map fst (group_examples [1, 0, 1] [''a'', ''b'', ''c'']) = [1, 0]
   \<and> (0 :: int) \<in> set (map fst (zip [1, 0, 1] [''a'', ''b'', ''c'']))
   \<and> map_of (group_examples [1, 0, 1] [''a'', ''b'', ''c'']) 0 = Some [''b'']
   \<and> map_of (group_examples [1, 0, 1] [''a'', ''b'', ''c'']) 1 = Some [''a'', ''c'']
   \<and> display_cluster_data
        \<lparr>checkpoint_step = Some 3000, text_examples = Some [''a'', ''b'', ''c''],
         cluster_labels = Some [1, 0, 1]\<rparr> False
       = [Cluster_Header 0 ''#FF6B6B'' 1, Example ''b'', Cluster_End,
          Cluster_Header 1 ''#4ECDC4'' 2, Example ''a'', Example ''c'', Cluster_End]"
proof -
  note T = clusters_grouped_then_sorted
    [of "[1, 0, 1]" "[''a'', ''b'', ''c'']"
        "\<lparr>checkpoint_step = Some 3000, text_examples = Some [''a'', ''b'', ''c''],
          cluster_labels = Some [1, 0, 1]\<rparr>"
        False "''a''" "''b''" "''c''" "Some 3000"]
  have shown: "display_cluster False 0 [''b''] @ display_cluster False 1 [''a'', ''c'']
      = [Cluster_Header 0 ''#FF6B6B'' 1, Example ''b'', Cluster_End,
         Cluster_Header 1 ''#4ECDC4'' 2, Example ''a'', Example ''c'', Cluster_End]"
    by (simp add: display_cluster_def cluster_colors_def highlight_tokens_def py_slice_take)
  from T have keys: "map fst (group_examples [1, 0, 1] [''a'', ''b'', ''c'']) = [1, 0]"
    by simp
  from T have vals: "map_of (group_examples [1, 0, 1] [''a'', ''b'', ''c'']) 0 = Some [''b'']"
    "map_of (group_examples [1, 0, 1] [''a'', ''b'', ''c'']) 1 = Some [''a'', ''c'']"
    by simp_all
  from T have "display_cluster_data
        \<lparr>checkpoint_step = Some 3000, text_examples = Some [''a'', ''b'', ''c''],
         cluster_labels = Some [1, 0, 1]\<rparr> False
      = display_cluster False 0 [''b''] @ display_cluster False 1 [''a'', ''c'']"
    by blast
  with keys vals shown show ?thesis by simp
qed

text \<open>
  Read as a statement about the order in which the clusters are rendered, the claim
  fails: for the labels \<open>[1, 0, 1]\<close> the first-seen order is 1, 0, and the page shows
  cluster 0 before cluster 1.
\<close>

theorem clusters_grouped_then_sorted_counterexample:
  "rev (remdups (rev [1, 0, 1 :: int])) = [1, 0]
   \<and> display_cluster_data
        \<lparr>checkpoint_step = Some 3000, text_examples = Some [''a'', ''b'', ''c''],
         cluster_labels = Some [1, 0, 1]\<rparr> True
       = [Cluster_Header 0 ''#FF6B6B'' 1, Example (span_low ''b''), Cluster_End,
          Cluster_Header 1 ''#4ECDC4'' 2, Example (span_low ''a''), Example (span_low ''c''),
          Cluster_End]"
proof -
  have "display_cluster_data
        \<lparr>checkpoint_step = Some 3000, text_examples = Some [''a'', ''b'', ''c''],
         cluster_labels = Some [1, 0, 1]\<rparr> True
       = [Cluster_Header 0 ''#FF6B6B'' 1, Example (span_low ''b''), Cluster_End,
          Cluster_Header 1 ''#4ECDC4'' 2, Example (span_low ''a''), Example (span_low ''c''),
          Cluster_End]"
    by code_simp
  then show ?thesis by simp
qed

lemma display_cluster_unfolded:
  "display_cluster is_right_panel cluster_id examples
     = Cluster_Header cluster_id
         (cluster_colors ! nat (cluster_id mod int (length cluster_colors))) (length examples)
       # map (\<lambda>example. Example (highlight_tokens example examples is_right_panel))
             (take 5 examples)
       @ (if 5 < length examples then [More_Examples (length examples - 5)] else [])
       @ [Cluster_End]"
  by (simp add: display_cluster_def py_slice_take)

text \<open>
  C10. For each cluster the dashboard emits the header with the number of all its
  examples, then the first 5 examples at most, each highlighted by
  \<open>highlight_tokens(example, examples, is_right_panel)\<close> with all the examples of the cluster
  as cluster texts, then the note with \<open>len(examples) - 5\<close> exactly when the cluster has
  more than 5 examples.
\<close>

theorem display_cluster_first_five:
  "display_cluster is_right_panel cluster_id examples
     = Cluster_Header cluster_id
         (cluster_colors ! nat (cluster_id mod int (length cluster_colors))) (length examples)
       # map (\<lambda>example. Example (highlight_tokens example examples is_right_panel))
             (take 5 examples)
       @ (if 5 < length examples then [More_Examples (length examples - 5)] else [])
       @ [Cluster_End]
   \<and> length (filter (\<lambda>el. case el of Example _ \<Rightarrow> True | _ \<Rightarrow> False)
               (display_cluster is_right_panel cluster_id examples))
       = min 5 (length examples)
   \<and> (More_Examples n \<in> set (display_cluster is_right_panel cluster_id examples)
        \<longleftrightarrow> 5 < length examples \<and> n = length examples - 5)
   \<and> (cluster_labels data = Some labels \<and> text_examples data = Some all_examples \<longrightarrow>
        display_cluster_data data is_right_panel
          = concat (map (\<lambda>cluster_id. display_cluster is_right_panel cluster_id
                           (map snd (filter (\<lambda>p. fst p = cluster_id) (zip labels all_examples))))
                        (sorted_list_of_set (set (map fst (zip labels all_examples))))))"
proof -
  have count: "length (filter (\<lambda>el. case el of Example _ \<Rightarrow> True | _ \<Rightarrow> False)
               (display_cluster is_right_panel cluster_id examples))
       = min 5 (length examples)"
    unfolding display_cluster_unfolded by (simp add: comp_def)
  have note_iff: "More_Examples n \<in> set (display_cluster is_right_panel cluster_id examples)
        \<longleftrightarrow> 5 < length examples \<and> n = length examples - 5"
    unfolding display_cluster_unfolded by auto
  have whole: "cluster_labels data = Some labels \<and> text_examples data = Some all_examples \<longrightarrow>
        display_cluster_data data is_right_panel
          = concat (map (\<lambda>cluster_id. display_cluster is_right_panel cluster_id
                           (map snd (filter (\<lambda>p. fst p = cluster_id) (zip labels all_examples))))
                        (sorted_list_of_set (set (map fst (zip labels all_examples)))))"
    using display_cluster_data_clusters by blast
  from display_cluster_unfolded [of is_right_panel cluster_id examples] count note_iff whole
  show ?thesis by (intro conjI)
qed

theorem display_cluster_first_five_witness:
  "display_cluster True 0 [''zzz yyy qqq'', ''x'', ''x'', ''x'', ''x'', ''qqq qqq qqq'']
     = [Cluster_Header 0 ''#FF6B6B'' 6,
        Example (span_high ''zzz'' @ span_low ''yyy'' @ span_high ''qqq''),
        Example (span_low ''x''), Example (span_low ''x''), Example (span_low ''x''),
        Example (span_low ''x''), More_Examples 1, Cluster_End]
   \<and> highlight_tokens ''zzz yyy qqq'' [''zzz yyy qqq'', ''x'', ''x'', ''x'', ''x''] True
       = span_high ''zzz'' @ span_high ''yyy'' @ span_low ''qqq''"
proof -
  let ?examples = "[''zzz yyy qqq'', ''x'', ''x'', ''x'', ''x'', ''qqq qqq qqq'']"
  have h1: "highlight_tokens ''zzz yyy qqq'' ?examples True
      = span_high ''zzz'' @ span_low ''yyy'' @ span_high ''qqq''"
    by code_simp
  have h2: "highlight_tokens ''x'' ?examples True = span_low ''x''"
    by code_simp
  have h3: "highlight_tokens ''zzz yyy qqq'' [''zzz yyy qqq'', ''x'', ''x'', ''x'', ''x''] True
       = span_high ''zzz'' @ span_high ''yyy'' @ span_low ''qqq''"
    by code_simp
  from display_cluster_first_five [of True 0 ?examples]
  have "display_cluster True 0 ?examples
     = Cluster_Header 0 (cluster_colors ! nat (0 mod int (length cluster_colors))) (length ?examples)
       # map (\<lambda>example. Example (highlight_tokens example ?examples True)) (take 5 ?examples)
       @ (if 5 < length ?examples then [More_Examples (length ?examples - 5)] else [])
       @ [Cluster_End]"
    by blast
  then have "display_cluster True 0 ?examples
     = [Cluster_Header 0 ''#FF6B6B'' 6,
        Example (span_high ''zzz'' @ span_low ''yyy'' @ span_high ''qqq''),
        Example (span_low ''x''), Example (span_low ''x''), Example (span_low ''x''),
        Example (span_low ''x''), More_Examples 1, Cluster_End]"
    by (simp add: h1 h2 cluster_colors_def)
  with h3 show ?thesis by simp
qed

section \<open>Properties of the loader\<close>

lemma read_lines_parsed: "read_lines (map Inr records) = Inr records"
  by (induction records) simp_all

lemma load_file_unreadable:
  "unreadable sfx f \<Longrightarrow>
     load_file sfx st f = st\<lparr>errors := errors st @ [error_message f]\<rparr>"
  by (cases f; cases "read_lines (snd f)")
     (simp_all add: unreadable_def load_file_def error_message_def Let_def)

lemma load_file_readable:
  "\<not> unreadable sfx f \<Longrightarrow>
     load_file sfx (st\<lparr>errors := []\<rparr>) f = (load_file sfx st f)\<lparr>errors := []\<rparr>
     \<and> errors (load_file sfx st f) = errors st"
  by (cases f; cases "read_lines (snd f)")
     (simp_all add: unreadable_def load_file_def Let_def)

lemma foldl_load_file:
  "foldl (load_file sfx) st files
     = (foldl (load_file sfx) (st\<lparr>errors := []\<rparr>) (filter (\<lambda>f. \<not> unreadable sfx f) files))
         \<lparr>errors := errors st @ map error_message (filter (unreadable sfx) files)\<rparr>"
proof (induction files arbitrary: st)
  case Nil
  show ?case by simp
next
  case (Cons f files)
  show ?case
  proof (cases "unreadable sfx f")
    case True
    then show ?thesis
      by (simp add: load_file_unreadable Cons.IH [of "st\<lparr>errors := errors st @ [error_message f]\<rparr>"])
  next
    case False
    then show ?thesis
      using load_file_readable [OF False, of st]
      by (simp add: Cons.IH [of "load_file sfx st f"]
            Cons.IH [of "load_file sfx (st\<lparr>errors := []\<rparr>) f"])
  qed
qed

lemma map_of_without_unreadable:
  "map_of (without_unreadable sfx dirs) path
     = map_option (filter (\<lambda>f. \<not> unreadable sfx f)) (map_of dirs path)"
  unfolding without_unreadable_def by (induction dirs) auto

lemma load_dir_split:
  "load_dir dirs sfx st path
     = (load_dir (without_unreadable sfx dirs) sfx (st\<lparr>errors := []\<rparr>) path)
         \<lparr>errors := errors st @ error_messages sfx dirs path\<rparr>"
proof (cases "map_of dirs path")
  case None
  then show ?thesis
    by (simp add: load_dir_def map_of_without_unreadable error_messages_def)
next
  case (Some files)
  then show ?thesis
    by (simp add: load_dir_def map_of_without_unreadable error_messages_def
          foldl_load_file [of sfx st files])
qed

lemma errors_load_dir:
  "errors (load_dir dirs sfx st path) = errors st @ error_messages sfx dirs path"
  by (subst load_dir_split) simp

lemma error_messages_clean: "error_messages sfx (without_unreadable sfx dirs) path = []"
  by (cases "map_of dirs path") (simp_all add: error_messages_def map_of_without_unreadable)

lemma errors_update_id: "errors st = [] \<Longrightarrow> st\<lparr>errors := []\<rparr> = st"
  by (cases st) simp

lemma load_dir_clean:
  "load_dir (without_unreadable sfx dirs) sfx (st\<lparr>errors := []\<rparr>) path
     = (load_dir dirs sfx st path)\<lparr>errors := []\<rparr>"
proof -
  have "errors (load_dir (without_unreadable sfx dirs) sfx (st\<lparr>errors := []\<rparr>) path) = []"
    by (simp add: errors_load_dir error_messages_clean)
  then have "(load_dir (without_unreadable sfx dirs) sfx (st\<lparr>errors := []\<rparr>) path)
      \<lparr>errors := []\<rparr>
      = load_dir (without_unreadable sfx dirs) sfx (st\<lparr>errors := []\<rparr>) path"
    by (rule errors_update_id)
  then show ?thesis
    by (subst (2) load_dir_split) simp
qed

lemma foldl_load_dir:
  "foldl (load_dir dirs sfx) st paths
     = (foldl (load_dir (without_unreadable sfx dirs) sfx) (st\<lparr>errors := []\<rparr>) paths)
         \<lparr>errors := errors st @ concat (map (error_messages sfx dirs) paths)\<rparr>"
proof (induction paths arbitrary: st)
  case Nil
  show ?case by simp
next
  case (Cons path paths)
  have e: "errors (load_dir dirs sfx st path) = errors st @ error_messages sfx dirs path"
    by (subst load_dir_split) simp
  show ?case
    by (simp add: Cons.IH [of "load_dir dirs sfx st path"] load_dir_clean e)
qed

lemma load_neuron_data_split:
  "load_neuron_data dirs model_name
     = (load_neuron_data (without_unreadable (series_suffix model_name) dirs) model_name)
         \<lparr>errors :=
            (if model_name = ''Pythia-70M''
             then error_messages ''_pythia70m_ckpt_series.jsonl'' dirs ''results''
                  @ error_messages ''_pythia70m_ckpt_series.jsonl'' dirs ''results/pythia70m''
             else if model_name = ''Pythia-160M''
             then error_messages ''_pythia160m_ckpt_series.jsonl'' dirs ''results/pythia160m''
             else [])\<rparr>"
proof -
  let ?start = "\<lparr>all_neuron_data = [], available_neurons = [], errors = []\<rparr>"
  have start: "?start\<lparr>errors := []\<rparr> = ?start" by simp
  show ?thesis
    unfolding load_neuron_data_def Let_def series_suffix_def
    by (simp add: foldl_load_dir [of dirs _ ?start] start del: foldl_Cons foldl_Nil)
qed

lemma errors_foldl_load_dir:
  "errors (foldl (load_dir dirs sfx) st paths)
     = errors st @ concat (map (error_messages sfx dirs) paths)"
  by (subst foldl_load_dir) simp

lemma errors_load_neuron_data_clean:
  "errors (load_neuron_data (without_unreadable (series_suffix model_name) dirs) model_name) = []"
  unfolding load_neuron_data_def Let_def series_suffix_def
  by (simp add: errors_foldl_load_dir error_messages_clean del: foldl_Cons foldl_Nil)

lemma isl_read_lines: "isl (read_lines lines) = list_ex isl lines"
proof (induction lines)
  case Nil
  show ?case by simp
next
  case (Cons l lines)
  then show ?case
    by (cases l; cases "read_lines lines") simp_all
qed

text \<open>
  C8, as the code has it, for the loader of the dashboard. A file raises exactly when
  one of its lines does not parse. Such a file adds the message
  \<open>Error loading <filename>: <exception>\<close> and nothing else: the loaded series and the
  list of neurons are those of the same directories without the unreadable files, and
  the messages are those of the unreadable files, directory by directory. A file whose
  lines all parse is stored under its neuron identifier as it is, without a message,
  whatever keys its records lack.
\<close>

theorem unreadable_file_skipped:
  "all_neuron_data (load_neuron_data dirs model_name)
     = all_neuron_data
         (load_neuron_data (without_unreadable (series_suffix model_name) dirs) model_name)
   \<and> available_neurons (load_neuron_data dirs model_name)
     = available_neurons
         (load_neuron_data (without_unreadable (series_suffix model_name) dirs) model_name)
   \<and> errors (load_neuron_data (without_unreadable (series_suffix model_name) dirs) model_name)
     = []
   \<and> errors (load_neuron_data dirs model_name)
     = (if model_name = ''Pythia-70M''
        then error_messages ''_pythia70m_ckpt_series.jsonl'' dirs ''results''
             @ error_messages ''_pythia70m_ckpt_series.jsonl'' dirs ''results/pythia70m''
        else if model_name = ''Pythia-160M''
        then error_messages ''_pythia160m_ckpt_series.jsonl'' dirs ''results/pythia160m''
        else [])
   \<and> isl (read_lines lines) = list_ex isl lines
   \<and> (suffix sfx filename \<and> read_lines lines = Inl e \<longrightarrow>
        load_file sfx st (filename, lines)
          = st\<lparr>errors := errors st @ [''Error loading '' @ filename @ '': '' @ e]\<rparr>)
   \<and> (suffix sfx filename \<longrightarrow>
        load_file sfx st (filename, map Inr records)
          = st\<lparr>all_neuron_data :=
                  dict_set (all_neuron_data st) (py_replace filename sfx []) records,
                available_neurons := available_neurons st @ [py_replace filename sfx []]\<rparr>)"
proof -
  let ?clean = "load_neuron_data (without_unreadable (series_suffix model_name) dirs) model_name"
  have c1: "all_neuron_data (load_neuron_data dirs model_name) = all_neuron_data ?clean"
    by (subst load_neuron_data_split) simp
  have c2: "available_neurons (load_neuron_data dirs model_name) = available_neurons ?clean"
    by (subst load_neuron_data_split) simp
  note c3 = errors_load_neuron_data_clean [of model_name dirs]
  have c4: "errors (load_neuron_data dirs model_name)
     = (if model_name = ''Pythia-70M''
        then error_messages ''_pythia70m_ckpt_series.jsonl'' dirs ''results''
             @ error_messages ''_pythia70m_ckpt_series.jsonl'' dirs ''results/pythia70m''
        else if model_name = ''Pythia-160M''
        then error_messages ''_pythia160m_ckpt_series.jsonl'' dirs ''results/pythia160m''
        else [])"
    by (subst load_neuron_data_split) simp
  note c5 = isl_read_lines [of lines]
  have c6: "suffix sfx filename \<and> read_lines lines = Inl e \<longrightarrow>
        load_file sfx st (filename, lines)
          = st\<lparr>errors := errors st @ [''Error loading '' @ filename @ '': '' @ e]\<rparr>"
    by (simp add: load_file_def Let_def)
  have c7: "suffix sfx filename \<longrightarrow>
        load_file sfx st (filename, map Inr records)
          = st\<lparr>all_neuron_data :=
                  dict_set (all_neuron_data st) (py_replace filename sfx []) records,
                available_neurons := available_neurons st @ [py_replace filename sfx []]\<rparr>"
    by (simp add: load_file_def Let_def read_lines_parsed)
  from c1 c2 c3 c4 c5 c6 c7 show ?thesis by (intro conjI)
qed

theorem unreadable_file_skipped_witness:
  "load_neuron_data
     [(''results'',
       [(''L0N0_pythia70m_ckpt_series.jsonl'',
         [Inr \<lparr>checkpoint_step = Some 1000, text_examples = Some [''a''],
               cluster_labels = Some [0]\<rparr>,
          Inl ''Expecting value'']),
        (''L0N20_pythia70m_ckpt_series.jsonl'',
         [Inr \<lparr>checkpoint_step = Some 1000, text_examples = Some [''a''],
               cluster_labels = Some [0]\<rparr>])])]
     ''Pythia-70M''
   = \<lparr>all_neuron_data =
        [(''L0N20'', [\<lparr>checkpoint_step = Some 1000, text_examples = Some [''a''],
                        cluster_labels = Some [0]\<rparr>])],
      available_neurons = [''L0N20''],
      errors = [''Error loading L0N0_pythia70m_ckpt_series.jsonl: Expecting value'']\<rparr>
   \<and> without_unreadable (series_suffix ''Pythia-70M'')
     [(''results'',
       [(''L0N0_pythia70m_ckpt_series.jsonl'',
         [Inr \<lparr>checkpoint_step = Some 1000, text_examples = Some [''a''],
               cluster_labels = Some [0]\<rparr>,
          Inl ''Expecting value'']),
        (''L0N20_pythia70m_ckpt_series.jsonl'',
         [Inr \<lparr>checkpoint_step = Some 1000, text_examples = Some [''a''],
               cluster_labels = Some [0]\<rparr>])])]
   = [(''results'',
       [(''L0N20_pythia70m_ckpt_series.jsonl'',
         [Inr \<lparr>checkpoint_step = Some 1000, text_examples = Some [''a''],
               cluster_labels = Some [0]\<rparr>])])]"
proof -
  let ?r = "\<lparr>checkpoint_step = Some 1000, text_examples = Some [''a''],
             cluster_labels = Some [0]\<rparr>"
  let ?dirs = "[(''results'',
       [(''L0N0_pythia70m_ckpt_series.jsonl'', [Inr ?r, Inl ''Expecting value'']),
        (''L0N20_pythia70m_ckpt_series.jsonl'', [Inr ?r])])]"
  let ?clean = "[(''results'', [(''L0N20_pythia70m_ckpt_series.jsonl'', [Inr ?r])])]"
  have w: "without_unreadable (series_suffix ''Pythia-70M'') ?dirs = ?clean"
    by code_simp
  have l: "load_neuron_data ?clean ''Pythia-70M''
      = \<lparr>all_neuron_data = [(''L0N20'', [?r])], available_neurons = [''L0N20''], errors = []\<rparr>"
    by code_simp
  have m: "error_messages ''_pythia70m_ckpt_series.jsonl'' ?dirs ''results''
      = [''Error loading L0N0_pythia70m_ckpt_series.jsonl: Expecting value'']"
    by code_simp
  have n: "error_messages ''_pythia70m_ckpt_series.jsonl'' ?dirs ''results/pythia70m'' = []"
    by code_simp
  note T = unreadable_file_skipped [of ?dirs "''Pythia-70M''"]
  from T have a: "all_neuron_data (load_neuron_data ?dirs ''Pythia-70M'') = [(''L0N20'', [?r])]"
    unfolding w l by simp
  from T have b: "available_neurons (load_neuron_data ?dirs ''Pythia-70M'') = [''L0N20'']"
    unfolding w l by simp
  from T have c: "errors (load_neuron_data ?dirs ''Pythia-70M'')
      = [''Error loading L0N0_pythia70m_ckpt_series.jsonl: Expecting value'']"
    unfolding m n by simp
  have "load_neuron_data ?dirs ''Pythia-70M''
      = \<lparr>all_neuron_data = [(''L0N20'', [?r])], available_neurons = [''L0N20''],
         errors = [''Error loading L0N0_pythia70m_ckpt_series.jsonl: Expecting value'']\<rparr>"
    using a b c by (cases "load_neuron_data ?dirs ''Pythia-70M''") simp
  with w show ?thesis by simp
qed

text \<open>
  The claim fails for a record without its required fields: the line parses, so the
  file is stored and no message is shown.
\<close>

theorem unreadable_file_skipped_counterexample:
  "load_neuron_data
     [(''results'',
       [(''L0N0_pythia70m_ckpt_series.jsonl'',
         [Inr \<lparr>checkpoint_step = None, text_examples = None, cluster_labels = None\<rparr>])])]
     ''Pythia-70M''
   = \<lparr>all_neuron_data =
        [(''L0N0'', [\<lparr>checkpoint_step = None, text_examples = None, cluster_labels = None\<rparr>])],
      available_neurons = [''L0N0''],
      errors = []\<rparr>"
  by code_simp

section \<open>The claim about the two panels\<close>









end
